theory Spec2Isabelle
  imports Complex_Main "HOL-Library.Word"
begin

section \<open>The data block manager of the log serializer\<close>

text \<open>
  A shallow embedding of \<^verbatim>\<open>src/serializer/log/data_block_manager.cc\<close>. The manager is
  a single-threaded object; every member function becomes a function from the manager's
  state to an error or the new state. Calls the manager makes to its collaborators (the
  file, the serializer's mutex, the extent manager, the callbacks) are appended to
  \<open>io_log\<close> in the order the code makes them; what the collaborators answer is read from
  an \<open>env\<close> record.

  \<^verbatim>\<open>rassert\<close> and \<^verbatim>\<open>unreachable\<close> abort the process; the model returns
  \<open>Inl Assertion_failed\<close> and \<open>Inl Unreachable\<close> at those places. A pointer to a
  \<^verbatim>\<open>gc_entry\<close> is modelled by the entry's index in the \<^verbatim>\<open>entries\<close> table (the
  constructor registers every entry there under \<open>offset / extent_size\<close>), and following a
  pointer whose entry is gone is \<open>Inl Null_dereference\<close>. Performance counters
  (\<^verbatim>\<open>pm_serializer_*\<close>) are write-only and are left out.
\<close>

subsection \<open>Configuration and collaborators\<close>

datatype error = Assertion_failed | Unreachable | Null_dereference | Out_of_bounds
  | Division_by_zero | Does_not_terminate

text \<open>
  The constants of \<^verbatim>\<open>config/args.hpp\<close>, the static and dynamic configuration and the
  machine's \<^verbatim>\<open>float\<close> arithmetic are declared outside the file; they are parameters of
  the model. \<open>'f\<close> is the type of \<^verbatim>\<open>float\<close> values: \<open>float_of_int\<close> is the conversion
  \<^verbatim>\<open>(float) n\<close>, \<open>fadd\<close>, \<open>fmul\<close>, \<open>fdiv\<close> are \<^verbatim>\<open>+\<close>, \<^verbatim>\<open>*\<close>, \<^verbatim>\<open>/\<close> on floats,
  \<open>fgreater a b\<close> is \<^verbatim>\<open>a > b\<close>, \<open>fzero\<close> is \<^verbatim>\<open>0.0\<close> and \<open>float_1_02\<close> is \<^verbatim>\<open>1.02f\<close>.
\<close>

record 'f config =
  extent_size :: nat
  block_size :: nat
  MAX_ACTIVE_DATA_EXTENTS :: nat
  num_active_data_extents :: nat
  GC_YOUNG_EXTENT_MAX_SIZE :: nat
  GC_YOUNG_EXTENT_TIMELIMIT_MICROS :: "64 word"
  MAX_READ_AHEAD_BLOCKS :: nat
  NULL_BLOCK_ID :: "32 word"
  NULL_SER_TRANSACTION_ID :: "64 word"
  sizeof_buf_data_t :: nat
  gc_low_ratio :: 'f
  gc_high_ratio :: 'f
  float_of_int :: "int \<Rightarrow> 'f"
  fadd :: "'f \<Rightarrow> 'f \<Rightarrow> 'f"
  fmul :: "'f \<Rightarrow> 'f \<Rightarrow> 'f"
  fdiv :: "'f \<Rightarrow> 'f \<Rightarrow> 'f"
  fgreater :: "'f \<Rightarrow> 'f \<Rightarrow> bool"
  fzero :: 'f
  float_1_02 :: 'f

text \<open>
  Modelled from the spec: \<^verbatim>\<open>static_config->blocks_per_extent()\<close>,
  \<^verbatim>\<open>extent_index\<close> and \<^verbatim>\<open>block_index\<close> are declared in a header that is not part
  of the sources. The spec gives \<open>blocks_per_extent = extent_size / block_size\<close>, an
  extent's index as the number of its extent in the file and a block's index as the
  number of its slot in its extent.
\<close>

definition blocks_per_extent :: "'f config \<Rightarrow> nat" where
  "blocks_per_extent cfg = extent_size cfg div block_size cfg"

definition extent_index :: "'f config \<Rightarrow> nat \<Rightarrow> nat" where
  "extent_index cfg off = off div extent_size cfg"

definition block_index :: "'f config \<Rightarrow> nat \<Rightarrow> nat" where
  "block_index cfg off = (off mod extent_size cfg) div block_size cfg"

subsection \<open>Entries, the manager's state, the log of calls\<close>

datatype entry_state =
  state_reconstructing | state_active | state_young | state_old | state_in_gc

record gc_entry =
  offset :: nat
  g_array :: "bool list"
  timestamp :: "64 word"
  state :: entry_state

datatype manager_state = state_unstarted | state_ready | state_shutting_down | state_shut_down

datatype gc_step =
  gc_reconstruct | gc_ready | gc_ready_lock_available | gc_read | gc_read_lock_available
  | gc_write

record buf_data_t =
  block_id :: "32 word"
  transaction_id :: "64 word"

text \<open>
  A \<^verbatim>\<open>gc_write_t\<close>: the block's id and the pointer to its payload, given as the byte
  offset of the payload inside the scratch buffer \<^verbatim>\<open>gc_blocks\<close>.
\<close>

record gc_write_t =
  gw_block_id :: "32 word"
  gw_buf :: nat

type_synonym callback = nat

datatype account = Gc_io_account_nice | Gc_io_account_high | Caller_account nat

text \<open>
  The memory a call reads into or copies into: the GC scratch buffer at a byte offset,
  the block of a caller whose payload is at the given address (the block starts at the
  header in front of it), the buffer of a read-ahead, a buffer of the serializer's
  allocator (again named by the address of its payload).
\<close>

datatype buffer = Gc_blocks_at nat | Caller_buffer nat | Read_ahead_buf | Serializer_buffer nat

text \<open>
  The fields of \<^verbatim>\<open>dbm_read_ahead_fsm_t\<close>, lines 123--134, but \<^verbatim>\<open>parent\<close> (the one manager)
  and \<^verbatim>\<open>read_ahead_buf\<close> (the buffer \<open>Read_ahead_buf\<close>).
\<close>

record dbm_read_ahead_fsm_t =
  fsm_callback :: callback
  fsm_extent :: nat
  fsm_read_ahead_size :: nat
  fsm_read_ahead_offset :: nat
  fsm_off_in :: nat
  fsm_buf_out :: nat

text \<open>
  The \<^verbatim>\<open>iocallback_t\<close> handed to the file with a read: the caller's own, the manager
  \<^verbatim>\<open>gc_read_callback\<close> (the reads of the GC, line 373), or a read-ahead machine.
\<close>

datatype iocallback = Caller_callback callback | Gc_read_callback
  | Read_ahead_fsm dbm_read_ahead_fsm_t

text \<open>
  The calls the manager makes: \<open>Read_async offset length buffer account callback\<close> and
  \<open>Write_async offset length header payload account callback\<close> on the file, the calls on
  the serializer and its extent manager, the copies of blocks, and the calls of the
  callbacks it was given.
\<close>

datatype io_event =
    Read_async nat nat buffer account iocallback
  | Write_async nat nat buf_data_t nat account callback
  | Main_mutex_lock
  | Main_mutex_unlock
  | Write_gcs "gc_write_t list" account
  | Reserve_extent nat
  | Release_extent nat
  | On_gc_disabled callback
  | On_datablock_manager_shutdown callback
  | Memcpy buffer nat nat
  | Serializer_malloc nat
  | Offer_buf_to_read_ahead_callbacks "32 word" nat nat
  | Serializer_free nat
  | Free_read_ahead_buf
  | On_io_complete callback

text \<open>
  A \<^verbatim>\<open>flagged_off64_t\<close> of the LBA index: the two flags the code tests and the offset.
\<close>

record flagged_off64_t =
  is_delete :: bool
  has_value :: bool
  off_value :: nat

text \<open>
  The arrays of \<^verbatim>\<open>MAX_ACTIVE_DATA_EXTENTS\<close> elements (in the metablock and in the
  manager) are functions on slot numbers; the model returns \<open>Inl Out_of_bounds\<close> where
  the code would index one with a slot that is not below \<^verbatim>\<open>MAX_ACTIVE_DATA_EXTENTS\<close>.
\<close>

record metablock_mixin_t =
  mb_active_extents :: "nat \<Rightarrow> nat option"
  mb_blocks_in_active_extent :: "nat \<Rightarrow> nat"

text \<open>
  \<open>entries\<close> is the sparse table extent index \<open>\<rightharpoonup>\<close> entry; the three queues and the
  active slots hold entry pointers, that is, extent indices. \<open>gc_blocks\<close> gives, for the
  byte offset of a block in the GC scratch buffer, the header found there.
  \<^verbatim>\<open>NULL_OFFSET\<close> in a metablock and a null pointer are \<open>None\<close>.
\<close>

record dbm =
  dbm_state :: manager_state
  entries :: "nat \<rightharpoonup> gc_entry"
  reconstructed_extents :: "nat list"
  young_extent_queue :: "nat list"
  gc_pq :: "nat list"
  active_extents :: "nat \<Rightarrow> nat option"
  blocks_in_active_extent :: "nat \<Rightarrow> nat"
  next_active_extent :: nat
  gc_step :: gc_step
  should_be_stopped :: bool
  refcount :: int
  current_entry :: "nat option"
  gc_blocks :: "nat \<Rightarrow> buf_data_t"
  gc_disable_callback :: "callback option"
  shutdown_callback :: "callback option"
  old_total_blocks :: int
  old_garbage_blocks :: int
  io_log :: "io_event list"

text \<open>
  What the collaborators answer. Each answer may depend on the manager's state at the
  moment of the call, which holds the log of every call made so far.
  \<open>write_gcs\<close> is the serializer's \<^verbatim>\<open>write_gcs\<close>: it may call back into the manager
  before it returns, so it maps the state to the state it leaves and tells whether the
  writes completed synchronously. \<open>get_block_offset\<close> and \<open>get_block_recency\<close> are those
  of the serializer's LBA index, \<open>serializer_malloc\<close> is the address of the payload of the
  buffer the serializer allocates, and \<open>offer_buf_to_read_ahead_callbacks\<close> tells whether
  a read-ahead callback took the buffer offered.
\<close>

record env =
  gen_extent :: "dbm \<Rightarrow> nat"
  held_extents :: "dbm \<Rightarrow> nat"
  current_microtime :: "dbm \<Rightarrow> 64 word"
  should_perform_read_ahead :: "dbm \<Rightarrow> bool"
  write_gcs :: "gc_write_t list \<Rightarrow> account \<Rightarrow> dbm \<Rightarrow> bool \<times> dbm"
  get_block_offset :: "dbm \<Rightarrow> 32 word \<Rightarrow> flagged_off64_t"
  get_block_recency :: "dbm \<Rightarrow> 32 word \<Rightarrow> nat"
  serializer_malloc :: "dbm \<Rightarrow> nat"
  offer_buf_to_read_ahead_callbacks :: "dbm \<Rightarrow> 32 word \<Rightarrow> nat \<Rightarrow> nat \<Rightarrow> bool"

definition log_io :: "io_event \<Rightarrow> dbm \<Rightarrow> dbm" where
  "log_io ev s = s\<lparr>io_log := io_log s @ [ev]\<rparr>"

subsection \<open>The garbage bitmap\<close>

text \<open>
  Modelled from the spec: \<^verbatim>\<open>bitset_t\<close> is declared outside the sources. A bitmap
  is a list of bits, \<open>True\<close> for garbage; \<^verbatim>\<open>count()\<close> is the number of set bits, and an
  index outside the bitmap fails the bitset's own assertion.
\<close>

definition bitset_count :: "bool list \<Rightarrow> nat" where
  "bitset_count bs = length (filter (\<lambda>b. b) bs)"

definition bitset_get :: "bool list \<Rightarrow> nat \<Rightarrow> error + bool" where
  "bitset_get bs i = (if i < length bs then Inr (bs ! i) else Inl Assertion_failed)"

definition bitset_set :: "bool list \<Rightarrow> nat \<Rightarrow> bool \<Rightarrow> error + bool list" where
  "bitset_set bs i v = (if i < length bs then Inr (bs[i := v]) else Inl Assertion_failed)"

subsection \<open>Statistics\<close>

text \<open>\<^verbatim>\<open>garbage_ratio\<close>, lines 618--624.\<close>

definition garbage_ratio :: "'f config \<Rightarrow> env \<Rightarrow> dbm \<Rightarrow> 'f" where
  "garbage_ratio cfg ev s =
     (if old_total_blocks s = 0 then fzero cfg
      else fdiv cfg (float_of_int cfg (old_garbage_blocks s))
             (fadd cfg (float_of_int cfg (old_total_blocks s))
                (float_of_int cfg (int (held_extents ev s * blocks_per_extent cfg)))))"

definition should_we_keep_gcing :: "'f config \<Rightarrow> env \<Rightarrow> dbm \<Rightarrow> bool" where
  "should_we_keep_gcing cfg ev s =
     (\<not> should_be_stopped s \<and> fgreater cfg (garbage_ratio cfg ev s) (gc_low_ratio cfg))"

definition do_we_want_to_start_gcing :: "'f config \<Rightarrow> env \<Rightarrow> dbm \<Rightarrow> bool" where
  "do_we_want_to_start_gcing cfg ev s =
     (\<not> should_be_stopped s \<and> fgreater cfg (garbage_ratio cfg ev s) (gc_high_ratio cfg))"

definition choose_gc_io_account :: "'f config \<Rightarrow> env \<Rightarrow> dbm \<Rightarrow> account" where
  "choose_gc_io_account cfg ev s =
     (if fgreater cfg (garbage_ratio cfg ev s) (fmul cfg (gc_high_ratio cfg) (float_1_02 cfg))
      then Gc_io_account_high else Gc_io_account_nice)"

subsection \<open>Entries: construction and destruction\<close>

text \<open>
  Modelled from the spec: the constructors, \<^verbatim>\<open>destroy()\<close> and the destructor of
  \<^verbatim>\<open>gc_entry\<close> are declared in a header that is not part of the sources. By the spec
  an entry is created with all bits set and is entered in the entry table under its
  extent's index (at most one entry per index), the entry of a new extent takes its
  offset from the extent manager, one created at a known offset reserves that extent,
  and \<^verbatim>\<open>destroy\<close> releases the extent back to the extent manager and removes the entry.
  \<^verbatim>\<open>delete\<close> only removes the entry. The spec does not say what the constructor
  leaves in \<open>timestamp\<close> and \<^verbatim>\<open>data_block_manager.cc\<close> never assigns the field; the
  model stores the clock's reading at construction. The caller's assignment to
  \<open>state\<close>, which follows each construction, is the argument \<open>st\<close>.
\<close>

definition new_gc_entry_at ::
  "'f config \<Rightarrow> env \<Rightarrow> nat \<Rightarrow> entry_state \<Rightarrow> dbm \<Rightarrow> error + nat \<times> dbm" where
  "new_gc_entry_at cfg ev off st s =
     (let s1 = log_io (Reserve_extent off) s; p = off div extent_size cfg in
      if entries s1 p \<noteq> None then Inl Assertion_failed
      else Inr (p, s1\<lparr>entries := (entries s1)(p \<mapsto>
        \<lparr>offset = off, g_array = replicate (blocks_per_extent cfg) True,
         timestamp = current_microtime ev s1, state = st\<rparr>)\<rparr>))"

definition new_gc_entry ::
  "'f config \<Rightarrow> env \<Rightarrow> entry_state \<Rightarrow> dbm \<Rightarrow> error + nat \<times> dbm" where
  "new_gc_entry cfg ev st s =
     (let off = gen_extent ev s; p = off div extent_size cfg in
      if entries s p \<noteq> None then Inl Assertion_failed
      else Inr (p, s\<lparr>entries := (entries s)(p \<mapsto>
        \<lparr>offset = off, g_array = replicate (blocks_per_extent cfg) True,
         timestamp = current_microtime ev s, state = st\<rparr>)\<rparr>))"

definition delete_entry :: "nat \<Rightarrow> dbm \<Rightarrow> error + dbm" where
  "delete_entry p s =
     (case entries s p of
        None \<Rightarrow> Inl Null_dereference
      | Some en \<Rightarrow> Inr (s\<lparr>entries := (entries s)(p := None)\<rparr>))"

definition destroy :: "nat \<Rightarrow> dbm \<Rightarrow> error + dbm" where
  "destroy p s =
     (case entries s p of
        None \<Rightarrow> Inl Null_dereference
      | Some en \<Rightarrow> delete_entry p (log_io (Release_extent (offset en)) s))"

subsection \<open>The priority queue of old extents\<close>

text \<open>
  Modelled from the spec: \<^verbatim>\<open>priority_queue_t\<close> is declared outside the sources. By
  the spec it orders entries by \<^verbatim>\<open>g_array.count()\<close>, largest first, ties broken
  deterministically, with \<^verbatim>\<open>push\<close>, \<^verbatim>\<open>peak\<close>, \<^verbatim>\<open>pop\<close>, \<^verbatim>\<open>remove\<close> and an
  \<^verbatim>\<open>update\<close> that repositions one entry after its count changed. The model keeps the
  entries in a list, largest count first; \<^verbatim>\<open>peak\<close> and \<^verbatim>\<open>pop\<close> take its head. The
  handle \<^verbatim>\<open>our_pq_entry\<close> of an entry is the entry's occurrence in that list.
\<close>

definition entry_count :: "(nat \<rightharpoonup> gc_entry) \<Rightarrow> nat \<Rightarrow> nat" where
  "entry_count m p = (case m p of None \<Rightarrow> 0 | Some en \<Rightarrow> bitset_count (g_array en))"

fun pq_insert :: "(nat \<Rightarrow> nat) \<Rightarrow> nat \<Rightarrow> nat list \<Rightarrow> nat list" where
  "pq_insert key p [] = [p]"
| "pq_insert key p (q # qs) = (if key q < key p then p # q # qs else q # pq_insert key p qs)"

definition pq_push :: "nat \<Rightarrow> dbm \<Rightarrow> dbm" where
  "pq_push p s = s\<lparr>gc_pq := pq_insert (entry_count (entries s)) p (gc_pq s)\<rparr>"

definition pq_remove :: "nat \<Rightarrow> dbm \<Rightarrow> dbm" where
  "pq_remove p s = s\<lparr>gc_pq := remove1 p (gc_pq s)\<rparr>"

definition pq_update :: "nat \<Rightarrow> dbm \<Rightarrow> dbm" where
  "pq_update p s =
     s\<lparr>gc_pq := pq_insert (entry_count (entries s)) p (remove1 p (gc_pq s))\<rparr>"

subsection \<open>The step of the GC state machine\<close>

text \<open>
  Modelled from the spec: \<^verbatim>\<open>gc_state_t::set_step\<close> is declared in a header that is
  not part of the sources, and \<^verbatim>\<open>data_block_manager.cc\<close> never calls
  \<^verbatim>\<open>gc_disable_callback\<close> itself. By the spec a callback stored by \<^verbatim>\<open>disable_gc\<close> is
  invoked by the state machine on reaching \<^verbatim>\<open>ready\<close>; the model invokes and clears it
  when the step is set to \<open>gc_ready\<close>.
\<close>

definition set_step :: "gc_step \<Rightarrow> dbm \<Rightarrow> dbm" where
  "set_step next_step s =
     (case gc_disable_callback s of
        Some cb \<Rightarrow>
          if next_step = gc_ready
          then (log_io (On_gc_disabled cb) s)\<lparr>gc_disable_callback := None, gc_step := next_step\<rparr>
          else s\<lparr>gc_step := next_step\<rparr>
      | None \<Rightarrow> s\<lparr>gc_step := next_step\<rparr>)"

subsection \<open>Start-up\<close>

text \<open>\<^verbatim>\<open>start_reconstruct\<close>, \<^verbatim>\<open>mark_live\<close>, \<^verbatim>\<open>end_reconstruct\<close>, lines 39--68.\<close>

definition start_reconstruct :: "dbm \<Rightarrow> error + dbm" where
  "start_reconstruct s =
     (if dbm_state s \<noteq> state_unstarted then Inl Assertion_failed
      else Inr (set_step gc_reconstruct s))"

definition mark_live :: "'f config \<Rightarrow> env \<Rightarrow> nat \<Rightarrow> dbm \<Rightarrow> error + dbm" where
  "mark_live cfg ev off s =
     (if gc_step s \<noteq> gc_reconstruct then Inl Assertion_failed
      else
        let extent_id = extent_index cfg off; blk = block_index cfg off in
        case (if entries s extent_id = None
              then (case new_gc_entry_at cfg ev (extent_id * extent_size cfg)
                           state_reconstructing s of
                      Inl e \<Rightarrow> Inl e
                    | Inr (p, s1) \<Rightarrow>
                        Inr (s1\<lparr>reconstructed_extents := reconstructed_extents s1 @ [p]\<rparr>))
              else Inr s) of
          Inl e \<Rightarrow> Inl e
        | Inr s1 \<Rightarrow>
            (case entries s1 extent_id of
               None \<Rightarrow> Inl Null_dereference
             | Some en \<Rightarrow>
                 (case bitset_get (g_array en) blk of
                    Inl e \<Rightarrow> Inl e
                  | Inr b \<Rightarrow>
                      if \<not> b then Inl Assertion_failed
                      else
                        (case bitset_set (g_array en) blk False of
                           Inl e \<Rightarrow> Inl e
                         | Inr g \<Rightarrow>
                             Inr (s1\<lparr>entries :=
                               (entries s1)(extent_id \<mapsto> en\<lparr>g_array := g\<rparr>)\<rparr>)))))"

definition end_reconstruct :: "dbm \<Rightarrow> error + dbm" where
  "end_reconstruct s =
     (if dbm_state s \<noteq> state_unstarted then Inl Assertion_failed
      else Inr (set_step gc_ready s))"

text \<open>\<^verbatim>\<open>start_existing\<close>, lines 70--121: the body of the loop over the slots.\<close>

definition start_existing_slot ::
  "'f config \<Rightarrow> env \<Rightarrow> metablock_mixin_t \<Rightarrow> nat \<Rightarrow> dbm \<Rightarrow> error + dbm" where
  "start_existing_slot cfg ev mb i s =
     (case mb_active_extents mb i of
        None \<Rightarrow> Inr (s\<lparr>active_extents := (active_extents s)(i := None)\<rparr>)
      | Some off \<Rightarrow>
          let p = off div extent_size cfg in
          case (if entries s p = None
                then (case new_gc_entry_at cfg ev off state_reconstructing s of
                        Inl e \<Rightarrow> Inl e
                      | Inr (q, s1) \<Rightarrow>
                          Inr (s1\<lparr>reconstructed_extents := reconstructed_extents s1 @ [q]\<rparr>))
                else Inr s) of
            Inl e \<Rightarrow> Inl e
          | Inr s1 \<Rightarrow>
              (case entries s1 p of
                 None \<Rightarrow> Inl Assertion_failed
               | Some en \<Rightarrow>
                   if state en \<noteq> state_reconstructing then Inl Assertion_failed
                   else Inr (s1\<lparr>active_extents := (active_extents s1)(i := Some p),
                     entries := (entries s1)(p \<mapsto> en\<lparr>state := state_active\<rparr>),
                     reconstructed_extents := remove1 p (reconstructed_extents s1),
                     blocks_in_active_extent :=
                       (blocks_in_active_extent s1)(i := mb_blocks_in_active_extent mb i)\<rparr>)))"

fun start_existing_slots ::
  "'f config \<Rightarrow> env \<Rightarrow> metablock_mixin_t \<Rightarrow> nat list \<Rightarrow> dbm \<Rightarrow> error + dbm" where
  "start_existing_slots cfg ev mb [] s = Inr s"
| "start_existing_slots cfg ev mb (i # slots) s =
     (case start_existing_slot cfg ev mb i s of
        Inl e \<Rightarrow> Inl e
      | Inr s1 \<Rightarrow> start_existing_slots cfg ev mb slots s1)"

text \<open>The loop that turns the remaining reconstructed extents into old ones.\<close>

function reconstructed_to_old :: "'f config \<Rightarrow> dbm \<Rightarrow> error + dbm" where
  "reconstructed_to_old cfg s =
     (case reconstructed_extents s of
        [] \<Rightarrow> Inr s
      | p # rest \<Rightarrow>
          (case entries s p of
             None \<Rightarrow> Inl Null_dereference
           | Some en \<Rightarrow>
               if state en \<noteq> state_reconstructing then Inl Assertion_failed
               else
                 let s1 = s\<lparr>reconstructed_extents := remove1 p (reconstructed_extents s),
                            entries := (entries s)(p \<mapsto> en\<lparr>state := state_old\<rparr>)\<rparr>;
                     s2 = pq_push p s1
                 in reconstructed_to_old cfg
                      (s2\<lparr>old_total_blocks := old_total_blocks s2 + int (blocks_per_extent cfg),
                          old_garbage_blocks :=
                            old_garbage_blocks s2 + int (bitset_count (g_array en))\<rparr>)))"
  by pat_completeness auto
termination
  by (relation "measure (\<lambda>(cfg, s). length (reconstructed_extents s))")
    (auto simp: pq_push_def)

declare reconstructed_to_old.simps [simp del]

definition start_existing :: "'f config \<Rightarrow> env \<Rightarrow> metablock_mixin_t \<Rightarrow> dbm \<Rightarrow> error + dbm" where
  "start_existing cfg ev last_metablock s =
     (if dbm_state s \<noteq> state_unstarted then Inl Assertion_failed
      else
        case start_existing_slots cfg ev last_metablock
               [0 ..< MAX_ACTIVE_DATA_EXTENTS cfg] s of
          Inl e \<Rightarrow> Inl e
        | Inr s1 \<Rightarrow>
            (case reconstructed_to_old cfg s1 of
               Inl e \<Rightarrow> Inl e
             | Inr s2 \<Rightarrow> Inr (s2\<lparr>dbm_state := state_ready\<rparr>)))"

subsection \<open>Young extents\<close>

text \<open>\<^verbatim>\<open>remove_last_unyoung_entry\<close>, lines 578--589.\<close>

definition remove_last_unyoung_entry :: "'f config \<Rightarrow> dbm \<Rightarrow> error + dbm" where
  "remove_last_unyoung_entry cfg s =
     (case young_extent_queue s of
        [] \<Rightarrow> Inl Null_dereference
      | p # rest \<Rightarrow>
          (case entries s p of
             None \<Rightarrow> Inl Null_dereference
           | Some en \<Rightarrow>
               if state en \<noteq> state_young then Inl Assertion_failed
               else
                 let s1 = s\<lparr>young_extent_queue := remove1 p (young_extent_queue s),
                            entries := (entries s)(p \<mapsto> en\<lparr>state := state_old\<rparr>)\<rparr>;
                     s2 = pq_push p s1
                 in Inr (s2\<lparr>old_total_blocks :=
                              old_total_blocks s2 + int (blocks_per_extent cfg),
                            old_garbage_blocks :=
                              old_garbage_blocks s2 + int (bitset_count (g_array en))\<rparr>)))"

text \<open>
  \<^verbatim>\<open>mark_unyoung_entries\<close>, lines 563--574: the loop on the queue's size, then the
  clock is read, then the loop on the head's age. The subtraction is on unsigned 64-bit
  integers and wraps.
\<close>

function unyoung_while_too_many :: "'f config \<Rightarrow> dbm \<Rightarrow> error + dbm" where
  "unyoung_while_too_many cfg s =
     (if length (young_extent_queue s) > GC_YOUNG_EXTENT_MAX_SIZE cfg
      then (case remove_last_unyoung_entry cfg s of
              Inl e \<Rightarrow> Inl e
            | Inr s1 \<Rightarrow> unyoung_while_too_many cfg s1)
      else Inr s)"
  by pat_completeness auto
termination
  by (relation "measure (\<lambda>(cfg, s). length (young_extent_queue s))")
    (auto simp: remove_last_unyoung_entry_def pq_push_def Let_def
      split: list.splits option.splits if_splits)

declare unyoung_while_too_many.simps [simp del]

function unyoung_while_too_old :: "'f config \<Rightarrow> 64 word \<Rightarrow> dbm \<Rightarrow> error + dbm" where
  "unyoung_while_too_old cfg current_time s =
     (case young_extent_queue s of
        [] \<Rightarrow> Inr s
      | p # rest \<Rightarrow>
          (case entries s p of
             None \<Rightarrow> Inl Null_dereference
           | Some en \<Rightarrow>
               if current_time - timestamp en > GC_YOUNG_EXTENT_TIMELIMIT_MICROS cfg
               then (case remove_last_unyoung_entry cfg s of
                       Inl e \<Rightarrow> Inl e
                     | Inr s1 \<Rightarrow> unyoung_while_too_old cfg current_time s1)
               else Inr s))"
  by pat_completeness auto
termination
  by (relation "measure (\<lambda>(cfg, t, s). length (young_extent_queue s))")
    (auto simp: remove_last_unyoung_entry_def pq_push_def Let_def
      split: list.splits option.splits if_splits)

declare unyoung_while_too_old.simps [simp del]

definition mark_unyoung_entries :: "'f config \<Rightarrow> env \<Rightarrow> dbm \<Rightarrow> error + dbm" where
  "mark_unyoung_entries cfg ev s =
     (case unyoung_while_too_many cfg s of
        Inl e \<Rightarrow> Inl e
      | Inr s1 \<Rightarrow> unyoung_while_too_old cfg (current_microtime ev s1) s1)"

text \<open>
  The young promotion as the specification words it, one loop: while the queue holds
  more than \<^verbatim>\<open>GC_YOUNG_EXTENT_MAX_SIZE\<close> entries or its head is older than
  \<^verbatim>\<open>GC_YOUNG_EXTENT_TIMELIMIT_MICROS\<close>, pop the head and make it old.
\<close>

function promote_young_spec :: "'f config \<Rightarrow> 64 word \<Rightarrow> dbm \<Rightarrow> error + dbm" where
  "promote_young_spec cfg now s =
     (if length (young_extent_queue s) > GC_YOUNG_EXTENT_MAX_SIZE cfg
      then (case remove_last_unyoung_entry cfg s of
              Inl e \<Rightarrow> Inl e
            | Inr s1 \<Rightarrow> promote_young_spec cfg now s1)
      else
        (case young_extent_queue s of
           [] \<Rightarrow> Inr s
         | p # rest \<Rightarrow>
             (case entries s p of
                None \<Rightarrow> Inl Null_dereference
              | Some en \<Rightarrow>
                  if now - timestamp en > GC_YOUNG_EXTENT_TIMELIMIT_MICROS cfg
                  then (case remove_last_unyoung_entry cfg s of
                          Inl e \<Rightarrow> Inl e
                        | Inr s1 \<Rightarrow> promote_young_spec cfg now s1)
                  else Inr s)))"
  by pat_completeness auto
termination
  by (relation "measure (\<lambda>(cfg, t, s). length (young_extent_queue s))")
    (auto simp: remove_last_unyoung_entry_def pq_push_def Let_def
      split: list.splits option.splits if_splits)

declare promote_young_spec.simps [simp del]

subsection \<open>The offset allocator\<close>

text \<open>
  \<^verbatim>\<open>gimme_a_new_offset\<close>, lines 512--559, in the order of its four comments. The last
  loop, \<^verbatim>\<open>do ... while\<close>, need not end (no slot below
  \<^verbatim>\<open>num_active_data_extents\<close> and none occupied): it is a partial function, and the
  allocator returns \<open>Inl Does_not_terminate\<close> when it has no value.
\<close>

definition start_new_extent_if_necessary :: "'f config \<Rightarrow> env \<Rightarrow> dbm \<Rightarrow> error + dbm" where
  "start_new_extent_if_necessary cfg ev s =
     (let n = next_active_extent s in
      case active_extents s n of
        Some p \<Rightarrow> Inr s
      | None \<Rightarrow>
          (case new_gc_entry cfg ev state_active s of
             Inl e \<Rightarrow> Inl e
           | Inr (p, s1) \<Rightarrow>
               Inr (s1\<lparr>active_extents := (active_extents s1)(n := Some p),
                      blocks_in_active_extent := (blocks_in_active_extent s1)(n := 0)\<rparr>)))"

definition put_block_into_extent :: "'f config \<Rightarrow> dbm \<Rightarrow> error + nat \<times> dbm" where
  "put_block_into_extent cfg s =
     (let n = next_active_extent s in
      case active_extents s n of
        None \<Rightarrow> Inl Null_dereference
      | Some p \<Rightarrow>
          (case entries s p of
             None \<Rightarrow> Inl Null_dereference
           | Some en \<Rightarrow>
               if state en \<noteq> state_active then Inl Assertion_failed
               else if \<not> bitset_count (g_array en) > 0 then Inl Assertion_failed
               else if \<not> blocks_in_active_extent s n < blocks_per_extent cfg
               then Inl Assertion_failed
               else
                 let off = offset en + blocks_in_active_extent s n * block_size cfg in
                 case bitset_get (g_array en) (blocks_in_active_extent s n) of
                   Inl e \<Rightarrow> Inl e
                 | Inr b \<Rightarrow>
                     if \<not> b then Inl Assertion_failed
                     else
                       (case bitset_set (g_array en) (blocks_in_active_extent s n) False of
                          Inl e \<Rightarrow> Inl e
                        | Inr g \<Rightarrow>
                            Inr (off, s\<lparr>entries := (entries s)(p \<mapsto> en\<lparr>g_array := g\<rparr>),
                              blocks_in_active_extent := (blocks_in_active_extent s)
                                (n := blocks_in_active_extent s n + 1)\<rparr>))))"

definition deactivate_extent_if_necessary :: "'f config \<Rightarrow> env \<Rightarrow> dbm \<Rightarrow> error + dbm" where
  "deactivate_extent_if_necessary cfg ev s =
     (let n = next_active_extent s in
      if blocks_in_active_extent s n = blocks_per_extent cfg
      then
        (case active_extents s n of
           None \<Rightarrow> Inl Null_dereference
         | Some p \<Rightarrow>
             (case entries s p of
                None \<Rightarrow> Inl Null_dereference
              | Some en \<Rightarrow>
                  if \<not> bitset_count (g_array en) < blocks_per_extent cfg
                  then Inl Assertion_failed
                  else
                    (case mark_unyoung_entries cfg ev
                            (s\<lparr>entries := (entries s)(p \<mapsto> en\<lparr>state := state_young\<rparr>),
                               young_extent_queue := young_extent_queue s @ [p]\<rparr>) of
                       Inl e \<Rightarrow> Inl e
                     | Inr s1 \<Rightarrow> Inr (s1\<lparr>active_extents := (active_extents s1)(n := None)\<rparr>))))
      else Inr s)"

partial_function (option) move_along_to_next_extent ::
  "'f config \<Rightarrow> (nat \<Rightarrow> nat option) \<Rightarrow> nat \<Rightarrow> nat option" where
  "move_along_to_next_extent cfg act n =
     (let n' = (n + 1) mod MAX_ACTIVE_DATA_EXTENTS cfg in
      if n' \<ge> num_active_data_extents cfg \<and> act n' = None
      then move_along_to_next_extent cfg act n'
      else Some n')"

definition gimme_a_new_offset :: "'f config \<Rightarrow> env \<Rightarrow> dbm \<Rightarrow> error + nat \<times> dbm" where
  "gimme_a_new_offset cfg ev s =
     (if \<not> next_active_extent s < MAX_ACTIVE_DATA_EXTENTS cfg then Inl Out_of_bounds
      else
        case start_new_extent_if_necessary cfg ev s of
          Inl e \<Rightarrow> Inl e
        | Inr s1 \<Rightarrow>
            (case put_block_into_extent cfg s1 of
               Inl e \<Rightarrow> Inl e
             | Inr (off, s2) \<Rightarrow>
                 (case deactivate_extent_if_necessary cfg ev s2 of
                    Inl e \<Rightarrow> Inl e
                  | Inr s3 \<Rightarrow>
                      (case move_along_to_next_extent cfg (active_extents s3)
                              (next_active_extent s3) of
                         None \<Rightarrow> Inl Does_not_terminate
                       | Some n' \<Rightarrow> Inr (off, s3\<lparr>next_active_extent := n'\<rparr>)))))"

subsection \<open>Reading and writing blocks\<close>

text \<open>
  The constructor of \<^verbatim>\<open>dbm_read_ahead_fsm_t\<close>, lines 136--147: it computes the chunk of
  the extent to read, and submits the read with the new machine as its callback.
  \<open>floor_aligned off (extent_size cfg)\<close> is \<open>off - off mod extent_size cfg\<close>.
\<close>

definition new_dbm_read_ahead_fsm_t ::
  "'f config \<Rightarrow> nat \<Rightarrow> nat \<Rightarrow> callback \<Rightarrow> dbm_read_ahead_fsm_t" where
  "new_dbm_read_ahead_fsm_t cfg off_in buf_out cb =
     (let extent = off_in - off_in mod extent_size cfg;
          read_ahead_size =
            min (extent_size cfg) (MAX_READ_AHEAD_BLOCKS cfg * block_size cfg);
          read_ahead_offset =
            extent + (off_in - extent) div read_ahead_size * read_ahead_size
      in \<lparr>fsm_callback = cb, fsm_extent = extent, fsm_read_ahead_size = read_ahead_size,
          fsm_read_ahead_offset = read_ahead_offset, fsm_off_in = off_in,
          fsm_buf_out = buf_out\<rparr>)"

text \<open>
  The loop of \<^verbatim>\<open>dbm_read_ahead_fsm_t::on_io_complete\<close>, lines 160--197, from block
  \<open>current_block\<close> on. \<open>blocks\<close> gives the header found at a byte offset of the read-ahead
  buffer. The block asked for is copied to the caller; any other block that the LBA
  index says is live at this offset is copied to a new buffer and offered to the
  read-ahead callbacks. With blocks of size \<open>0\<close> the loop of the code would not end.
\<close>

function read_ahead_blocks ::
  "'f config \<Rightarrow> env \<Rightarrow> dbm_read_ahead_fsm_t \<Rightarrow> (nat \<Rightarrow> buf_data_t) \<Rightarrow> nat \<Rightarrow> dbm
     \<Rightarrow> error + dbm" where
  "read_ahead_blocks cfg ev fsm blocks current_block s =
     (if \<not> current_block * block_size cfg < fsm_read_ahead_size fsm then Inr s
      else if block_size cfg = 0 then Inl Does_not_terminate
      else
        let current_buf = current_block * block_size cfg;
            current_offset = fsm_read_ahead_offset fsm + current_block * block_size cfg
        in if current_offset = fsm_off_in fsm
           then read_ahead_blocks cfg ev fsm blocks (current_block + 1)
                  (log_io (Memcpy (Caller_buffer (fsm_buf_out fsm)) current_buf
                             (block_size cfg)) s)
           else
             let ident = block_id (blocks current_buf);
                 flagged_lba_offset = get_block_offset ev s ident;
                 block_is_live = (ident \<noteq> 0 \<and> \<not> is_delete flagged_lba_offset
                   \<and> has_value flagged_lba_offset
                   \<and> current_offset = off_value flagged_lba_offset)
             in if \<not> block_is_live
                then read_ahead_blocks cfg ev fsm blocks (current_block + 1) s
                else
                  let recency_timestamp = get_block_recency ev s ident;
                      data = serializer_malloc ev s;
                      s1 = log_io (Memcpy (Serializer_buffer data) current_buf
                                     (block_size cfg))
                             (log_io (Serializer_malloc data) s);
                      offered = offer_buf_to_read_ahead_callbacks ev s1 ident data
                                  recency_timestamp;
                      s2 = log_io (Offer_buf_to_read_ahead_callbacks ident data
                                     recency_timestamp) s1
                  in if \<not> offered
                     then read_ahead_blocks cfg ev fsm blocks (current_block + 1)
                            (log_io (Serializer_free data) s2)
                     else read_ahead_blocks cfg ev fsm blocks (current_block + 1) s2)"
  by pat_completeness auto
termination
  by (relation "measure (\<lambda>(cfg, ev, fsm, blocks, current_block, s).
        fsm_read_ahead_size fsm - current_block * block_size cfg)") auto

declare read_ahead_blocks.simps [simp del]

text \<open>
  \<^verbatim>\<open>dbm_read_ahead_fsm_t::on_io_complete\<close>, lines 149--203: what the file calls when the
  read of the chunk is done. After the loop it frees the read-ahead buffer and calls the
  callback the machine was built with. The remainder of line 154 is taken by a block
  size that the model checks not to be \<open>0\<close>.
\<close>

definition fsm_on_io_complete ::
  "'f config \<Rightarrow> env \<Rightarrow> dbm_read_ahead_fsm_t \<Rightarrow> (nat \<Rightarrow> buf_data_t) \<Rightarrow> dbm \<Rightarrow> error + dbm" where
  "fsm_on_io_complete cfg ev fsm blocks s =
     (if \<not> fsm_read_ahead_offset fsm \<le> fsm_off_in fsm then Inl Assertion_failed
      else if \<not> fsm_off_in fsm < fsm_read_ahead_offset fsm + fsm_read_ahead_size fsm
      then Inl Assertion_failed
      else if block_size cfg = 0 then Inl Division_by_zero
      else if (fsm_off_in fsm - fsm_read_ahead_offset fsm) mod block_size cfg \<noteq> 0
      then Inl Assertion_failed
      else
        case read_ahead_blocks cfg ev fsm blocks 0 s of
          Inl e \<Rightarrow> Inl e
        | Inr s1 \<Rightarrow>
            Inr (log_io (On_io_complete (fsm_callback fsm)) (log_io Free_read_ahead_buf s1)))"

text \<open>
  \<^verbatim>\<open>read\<close>, lines 206--220. With read-ahead the read of the chunk is submitted by the
  constructor of the machine, which divides by the size of the chunk; without, the read
  of the one block is submitted with the caller's callback.
\<close>

definition read_fn ::
  "'f config \<Rightarrow> env \<Rightarrow> nat \<Rightarrow> nat \<Rightarrow> account \<Rightarrow> callback \<Rightarrow> dbm \<Rightarrow> error + bool \<times> dbm" where
  "read_fn cfg ev off_in buf_out io_account cb s =
     (if dbm_state s \<noteq> state_ready then Inl Assertion_failed
      else if should_perform_read_ahead ev s
      then
        (let fsm = new_dbm_read_ahead_fsm_t cfg off_in buf_out cb
         in if extent_size cfg = 0 \<or> fsm_read_ahead_size fsm = 0 then Inl Division_by_zero
            else
              Inr (False,
                log_io (Read_async (fsm_read_ahead_offset fsm) (fsm_read_ahead_size fsm)
                          Read_ahead_buf io_account (Read_ahead_fsm fsm)) s))
      else
        Inr (False,
          log_io (Read_async off_in (block_size cfg) (Caller_buffer buf_out) io_account
                    (Caller_callback cb)) s))"

text \<open>
  \<^verbatim>\<open>write\<close>, lines 222--243. \<open>hdr\<close> is the header in front of the caller's buffer
  \<open>buf_in\<close> when the call is made; the result is the returned flag and \<^verbatim>\<open>*off_out\<close>.
\<close>

definition write_fn ::
  "'f config \<Rightarrow> env \<Rightarrow> nat \<Rightarrow> buf_data_t \<Rightarrow> 32 word \<Rightarrow> 64 word \<Rightarrow> account \<Rightarrow> callback \<Rightarrow> dbm
     \<Rightarrow> error + (bool \<times> nat) \<times> dbm" where
  "write_fn cfg ev buf_in hdr blk transaction io_account cb s =
     (if \<not> (dbm_state s = state_ready
            \<or> (dbm_state s = state_shutting_down \<and> gc_step s = gc_write))
      then Inl Assertion_failed
      else
        case gimme_a_new_offset cfg ev s of
          Inl e \<Rightarrow> Inl e
        | Inr (off, s1) \<Rightarrow>
            if transaction \<noteq> NULL_SER_TRANSACTION_ID cfg
            then Inr ((False, off),
              log_io (Write_async off (block_size cfg)
                        \<lparr>block_id = blk, transaction_id = transaction\<rparr> buf_in io_account cb) s1)
            else if block_id hdr \<noteq> blk then Inl Assertion_failed
            else Inr ((False, off),
              log_io (Write_async off (block_size cfg) hdr buf_in io_account cb) s1))"

subsection \<open>Marking a block as garbage\<close>

text \<open>\<^verbatim>\<open>mark_garbage\<close>, lines 245--295.\<close>

definition mark_garbage :: "'f config \<Rightarrow> nat \<Rightarrow> dbm \<Rightarrow> error + dbm" where
  "mark_garbage cfg off s =
     (let extent_id = extent_index cfg off; blk = block_index cfg off in
      case entries s extent_id of
        None \<Rightarrow> Inl Null_dereference
      | Some en \<Rightarrow>
          (case bitset_get (g_array en) blk of
             Inl e \<Rightarrow> Inl e
           | Inr b \<Rightarrow>
               if b then Inl Assertion_failed
               else
                 (case bitset_set (g_array en) blk True of
                    Inl e \<Rightarrow> Inl e
                  | Inr g \<Rightarrow>
                      if length g \<noteq> blocks_per_extent cfg then Inl Assertion_failed
                      else
                        let s1 = s\<lparr>entries := (entries s)(extent_id \<mapsto> en\<lparr>g_array := g\<rparr>)\<rparr>;
                            s2 = (if state en = state_old
                                  then s1\<lparr>old_garbage_blocks := old_garbage_blocks s1 + 1\<rparr>
                                  else s1)
                        in
                          if bitset_count g = blocks_per_extent cfg \<and> state en \<noteq> state_active
                          then
                            (case (case state en of
                                     state_reconstructing \<Rightarrow> Inl Unreachable
                                   | state_active \<Rightarrow> Inl Unreachable
                                   | state_young \<Rightarrow>
                                       Inr (s2\<lparr>young_extent_queue :=
                                         remove1 extent_id (young_extent_queue s2)\<rparr>)
                                   | state_old \<Rightarrow>
                                       (let s3 = pq_remove extent_id s2 in
                                        Inr (s3\<lparr>old_total_blocks :=
                                               old_total_blocks s3 - int (blocks_per_extent cfg),
                                             old_garbage_blocks :=
                                               old_garbage_blocks s3
                                                 - int (blocks_per_extent cfg)\<rparr>))
                                   | state_in_gc \<Rightarrow>
                                       if current_entry s2 \<noteq> Some extent_id
                                       then Inl Assertion_failed
                                       else Inr (s2\<lparr>current_entry := None\<rparr>)) of
                               Inl e \<Rightarrow> Inl e
                             | Inr s4 \<Rightarrow> destroy extent_id s4)
                          else if state en = state_old then Inr (pq_update extent_id s2)
                          else Inr s2)))"

subsection \<open>Shutting down\<close>

text \<open>\<^verbatim>\<open>actually_shutdown\<close>, lines 487--510, and its three loops.\<close>

fun delete_active_extents :: "'f config \<Rightarrow> nat list \<Rightarrow> dbm \<Rightarrow> error + dbm" where
  "delete_active_extents cfg [] s = Inr s"
| "delete_active_extents cfg (i # slots) s =
     (if \<not> i < MAX_ACTIVE_DATA_EXTENTS cfg then Inl Out_of_bounds
      else
        case active_extents s i of
          None \<Rightarrow> delete_active_extents cfg slots s
        | Some p \<Rightarrow>
            (case delete_entry p s of
               Inl e \<Rightarrow> Inl e
             | Inr s1 \<Rightarrow>
                 delete_active_extents cfg slots
                   (s1\<lparr>active_extents := (active_extents s1)(i := None)\<rparr>)))"

function delete_young_extents :: "dbm \<Rightarrow> error + dbm" where
  "delete_young_extents s =
     (case young_extent_queue s of
        [] \<Rightarrow> Inr s
      | p # rest \<Rightarrow>
          (case delete_entry p (s\<lparr>young_extent_queue := remove1 p (young_extent_queue s)\<rparr>) of
             Inl e \<Rightarrow> Inl e
           | Inr s1 \<Rightarrow> delete_young_extents s1))"
  by pat_completeness auto
termination
  by (relation "measure (\<lambda>s. length (young_extent_queue s))")
    (auto simp: delete_entry_def split: option.splits)

declare delete_young_extents.simps [simp del]

function delete_pq_extents :: "dbm \<Rightarrow> error + dbm" where
  "delete_pq_extents s =
     (case gc_pq s of
        [] \<Rightarrow> Inr s
      | p # rest \<Rightarrow>
          (case delete_entry p (s\<lparr>gc_pq := rest\<rparr>) of
             Inl e \<Rightarrow> Inl e
           | Inr s1 \<Rightarrow> delete_pq_extents s1))"
  by pat_completeness auto
termination
  by (relation "measure (\<lambda>s. length (gc_pq s))")
    (auto simp: delete_entry_def split: option.splits)

declare delete_pq_extents.simps [simp del]

definition actually_shutdown :: "'f config \<Rightarrow> dbm \<Rightarrow> error + dbm" where
  "actually_shutdown cfg s =
     (if dbm_state s \<noteq> state_shutting_down then Inl Assertion_failed
      else
        let s1 = s\<lparr>dbm_state := state_shut_down\<rparr> in
        if reconstructed_extents s1 \<noteq> [] then Inl Assertion_failed
        else
          case delete_active_extents cfg [0 ..< num_active_data_extents cfg] s1 of
            Inl e \<Rightarrow> Inl e
          | Inr s2 \<Rightarrow>
              (case delete_young_extents s2 of
                 Inl e \<Rightarrow> Inl e
               | Inr s3 \<Rightarrow>
                   (case delete_pq_extents s3 of
                      Inl e \<Rightarrow> Inl e
                    | Inr s4 \<Rightarrow>
                        (case shutdown_callback s4 of
                           None \<Rightarrow> Inr s4
                         | Some cb \<Rightarrow> Inr (log_io (On_datablock_manager_shutdown cb) s4)))))"

text \<open>
  \<^verbatim>\<open>shutdown\<close>, lines 472--485. The callback is a reference to an object, never
  null: \<^verbatim>\<open>rassert(cb)\<close> holds by the argument's type.
\<close>

definition shutdown :: "'f config \<Rightarrow> callback \<Rightarrow> dbm \<Rightarrow> error + bool \<times> dbm" where
  "shutdown cfg cb s =
     (if dbm_state s \<noteq> state_ready then Inl Assertion_failed
      else
        let s1 = s\<lparr>dbm_state := state_shutting_down\<rparr> in
        if gc_step s1 \<noteq> gc_ready
        then Inr (False, s1\<lparr>shutdown_callback := Some cb\<rparr>)
        else
          (case actually_shutdown cfg (s1\<lparr>shutdown_callback := None\<rparr>) of
             Inl e \<Rightarrow> Inl e
           | Inr s2 \<Rightarrow> Inr (True, s2)))"

subsection \<open>The GC state machine\<close>

text \<open>
  \<^verbatim>\<open>run_gc\<close>, lines 327--456. Each case of the \<^verbatim>\<open>switch\<close> is a function; those
  that can set \<^verbatim>\<open>run_again\<close> or fall through return that flag with the state.
\<close>

definition gc_ready_case :: "'f config \<Rightarrow> env \<Rightarrow> dbm \<Rightarrow> error + dbm" where
  "gc_ready_case cfg ev s =
     (if gc_pq s = [] \<or> \<not> should_we_keep_gcing cfg ev s then Inr s
      else Inr (log_io Main_mutex_lock (set_step gc_ready_lock_available s)))"

text \<open>The loop of lines 367--376 that submits a read for every block that is not garbage.\<close>

fun read_live_blocks :: "'f config \<Rightarrow> env \<Rightarrow> gc_entry \<Rightarrow> nat list \<Rightarrow> dbm \<Rightarrow> error + dbm" where
  "read_live_blocks cfg ev en [] s = Inr s"
| "read_live_blocks cfg ev en (i # slots) s =
     (case bitset_get (g_array en) i of
        Inl e \<Rightarrow> Inl e
      | Inr b \<Rightarrow>
          if \<not> b
          then
            (let s1 = log_io (Read_async (offset en + i * block_size cfg) (block_size cfg)
                                (Gc_blocks_at (i * block_size cfg))
                                (choose_gc_io_account cfg ev s) Gc_read_callback) s
             in read_live_blocks cfg ev en slots (s1\<lparr>refcount := refcount s1 + 1\<rparr>))
          else read_live_blocks cfg ev en slots s)"

definition gc_ready_lock_available_case :: "'f config \<Rightarrow> env \<Rightarrow> dbm \<Rightarrow> error + dbm" where
  "gc_ready_lock_available_case cfg ev s0 =
     (let s = log_io Main_mutex_unlock s0 in
      if gc_pq s = [] \<or> \<not> should_we_keep_gcing cfg ev s then Inr (set_step gc_ready s)
      else
        case gc_pq s of
          [] \<Rightarrow> Inl Null_dereference
        | p # rest \<Rightarrow>
            (case entries s p of
               None \<Rightarrow> Inl Null_dereference
             | Some en \<Rightarrow>
                 if state en \<noteq> state_old then Inl Assertion_failed
                 else
                   let s1 = s\<lparr>gc_pq := rest, current_entry := Some p,
                              entries := (entries s)(p \<mapsto> en\<lparr>state := state_in_gc\<rparr>),
                              old_garbage_blocks :=
                                old_garbage_blocks s - int (bitset_count (g_array en)),
                              old_total_blocks :=
                                old_total_blocks s - int (blocks_per_extent cfg)\<rparr>
                   in
                     if refcount s1 \<noteq> 0 then Inl Assertion_failed
                     else
                       (case read_live_blocks cfg ev en [0 ..< blocks_per_extent cfg] s1 of
                          Inl e \<Rightarrow> Inl e
                        | Inr s2 \<Rightarrow>
                            if \<not> refcount s2 > 0 then Inl Assertion_failed
                            else Inr (set_step gc_read s2))))"

definition gc_read_case :: "dbm \<Rightarrow> error + dbm" where
  "gc_read_case s0 =
     (let s = s0\<lparr>refcount := refcount s0 - 1\<rparr> in
      if refcount s > 0 then Inr s
      else Inr (log_io Main_mutex_lock (set_step gc_read_lock_available s)))"

text \<open>
  The loop of lines 408--421 that fills \<^verbatim>\<open>gc_writes\<close>: \<open>ws\<close> is the vector so far,
  \<^verbatim>\<open>push_back\<close> appends.
\<close>

fun collect_gc_writes ::
  "'f config \<Rightarrow> gc_entry \<Rightarrow> (nat \<Rightarrow> buf_data_t) \<Rightarrow> nat list \<Rightarrow> gc_write_t list
     \<Rightarrow> error + gc_write_t list" where
  "collect_gc_writes cfg en blocks [] ws = Inr ws"
| "collect_gc_writes cfg en blocks (i # slots) ws =
     (case bitset_get (g_array en) i of
        Inl e \<Rightarrow> Inl e
      | Inr b \<Rightarrow>
          if b then collect_gc_writes cfg en blocks slots ws
          else
            let block = i * block_size cfg; ident = block_id (blocks block) in
            if ident = NULL_BLOCK_ID cfg then Inl Assertion_failed
            else collect_gc_writes cfg en blocks slots
                   (ws @ [\<lparr>gw_block_id = ident, gw_buf = block + sizeof_buf_data_t cfg\<rparr>]))"

text \<open>
  The case \<^verbatim>\<open>gc_read_lock_available\<close>; the flag tells whether control falls through
  into the case \<^verbatim>\<open>gc_write\<close>. The count \<^verbatim>\<open>num_writes\<close> is an \<^verbatim>\<open>int\<close>.
\<close>

definition gc_read_lock_available_case ::
  "'f config \<Rightarrow> env \<Rightarrow> dbm \<Rightarrow> error + bool \<times> dbm" where
  "gc_read_lock_available_case cfg ev s =
     (case current_entry s of
        None \<Rightarrow> Inr (False, set_step gc_ready (log_io Main_mutex_unlock s))
      | Some p \<Rightarrow>
          (case entries s p of
             None \<Rightarrow> Inl Null_dereference
           | Some en \<Rightarrow>
               let num_writes = int (blocks_per_extent cfg) - int (bitset_count (g_array en)) in
               case collect_gc_writes cfg en (gc_blocks s) [0 ..< blocks_per_extent cfg] [] of
                 Inl e \<Rightarrow> Inl e
               | Inr gc_writes \<Rightarrow>
                   if int (length gc_writes) \<noteq> num_writes then Inl Assertion_failed
                   else
                     let s1 = set_step gc_write s;
                         acct = choose_gc_io_account cfg ev s1
                     in Inr (write_gcs ev gc_writes acct (log_io (Write_gcs gc_writes acct) s1))))"

text \<open>
  The case \<^verbatim>\<open>gc_write\<close>; the flag is \<^verbatim>\<open>run_again\<close>, false where the code returns
  after \<^verbatim>\<open>actually_shutdown\<close>.
\<close>

definition gc_write_case :: "'f config \<Rightarrow> env \<Rightarrow> dbm \<Rightarrow> error + bool \<times> dbm" where
  "gc_write_case cfg ev s =
     (case mark_unyoung_entries cfg ev s of
        Inl e \<Rightarrow> Inl e
      | Inr s1 \<Rightarrow>
          if current_entry s1 \<noteq> None then Inl Assertion_failed
          else if refcount s1 \<noteq> 0 then Inl Assertion_failed
          else
            let s2 = set_step gc_ready s1 in
            if dbm_state s2 = state_shutting_down
            then (case actually_shutdown cfg s2 of
                    Inl e \<Rightarrow> Inl e
                  | Inr s3 \<Rightarrow> Inr (False, s3))
            else Inr (True, s2))"

function run_gc :: "'f config \<Rightarrow> env \<Rightarrow> dbm \<Rightarrow> error + dbm" where
  "run_gc cfg ev s =
     (case gc_step s of
        gc_ready \<Rightarrow> gc_ready_case cfg ev s
      | gc_ready_lock_available \<Rightarrow> gc_ready_lock_available_case cfg ev s
      | gc_read \<Rightarrow> gc_read_case s
      | gc_read_lock_available \<Rightarrow>
          (case gc_read_lock_available_case cfg ev s of
             Inl e \<Rightarrow> Inl e
           | Inr (done, s1) \<Rightarrow>
               if \<not> done then Inr s1
               else
                 (case gc_write_case cfg ev s1 of
                    Inl e \<Rightarrow> Inl e
                  | Inr (run_again, s2) \<Rightarrow> if run_again then run_gc cfg ev s2 else Inr s2))
      | gc_write \<Rightarrow>
          (case gc_write_case cfg ev s of
             Inl e \<Rightarrow> Inl e
           | Inr (run_again, s2) \<Rightarrow> if run_again then run_gc cfg ev s2 else Inr s2)
      | gc_reconstruct \<Rightarrow> Inl Unreachable)"
  by pat_completeness auto
termination
  by (relation "measure (\<lambda>(cfg, ev, s). if gc_step s = gc_ready then 0 else 1)")
    (auto simp: gc_write_case_def set_step_def log_io_def Let_def
      split: sum.splits if_splits option.splits)

declare run_gc.simps [simp del]

definition start_gc :: "'f config \<Rightarrow> env \<Rightarrow> dbm \<Rightarrow> error + dbm" where
  "start_gc cfg ev s = (if gc_step s = gc_ready then run_gc cfg ev s else Inr s)"

definition on_gc_write_done :: "'f config \<Rightarrow> env \<Rightarrow> dbm \<Rightarrow> error + dbm" where
  "on_gc_write_done cfg ev s = run_gc cfg ev s"

definition on_lock_available :: "'f config \<Rightarrow> env \<Rightarrow> dbm \<Rightarrow> error + dbm" where
  "on_lock_available cfg ev s =
     (if \<not> (gc_step s = gc_ready_lock_available \<or> gc_step s = gc_read_lock_available)
      then Inl Assertion_failed
      else run_gc cfg ev s)"


definition enable_gc :: "dbm \<Rightarrow> dbm" where
  "enable_gc s = s\<lparr>should_be_stopped := False\<rparr>"

subsection \<open>Preparing the metablock\<close>

text \<open>\<^verbatim>\<open>prepare_initial_metablock\<close> and \<^verbatim>\<open>prepare_metablock\<close>, lines 31--37, 458--470.\<close>

definition prepare_initial_metablock :: metablock_mixin_t where
  "prepare_initial_metablock =
     \<lparr>mb_active_extents = (\<lambda>i. None), mb_blocks_in_active_extent = (\<lambda>i. 0)\<rparr>"

definition prepare_metablock :: "'f config \<Rightarrow> dbm \<Rightarrow> error + metablock_mixin_t" where
  "prepare_metablock cfg s =
     (if \<not> (dbm_state s = state_ready \<or> dbm_state s = state_shutting_down)
      then Inl Assertion_failed
      else
        case those (map (\<lambda>i. case active_extents s i of
                               None \<Rightarrow> Some (i, None, 0)
                             | Some p \<Rightarrow>
                                 (case entries s p of
                                    None \<Rightarrow> None
                                  | Some en \<Rightarrow>
                                      Some (i, Some (offset en), blocks_in_active_extent s i)))
                    [0 ..< MAX_ACTIVE_DATA_EXTENTS cfg]) of
          None \<Rightarrow> Inl Null_dereference
        | Some slots \<Rightarrow>
            Inr \<lparr>mb_active_extents = (\<lambda>i. case map_of slots i of
                                              None \<Rightarrow> None | Some (off, n) \<Rightarrow> off),
                 mb_blocks_in_active_extent = (\<lambda>i. case map_of slots i of
                                              None \<Rightarrow> 0 | Some (off, n) \<Rightarrow> n)\<rparr>)"

subsection \<open>Operations and the statistics' invariant\<close>

text \<open>
  The operations that move entries between the states, as one type, so that a property
  of all of them is one statement.
\<close>

datatype operation =
    Allocation
  | Young_promotion
  | Mark_garbage nat
  | Gc_step
  | Start_existing metablock_mixin_t

fun perform :: "'f config \<Rightarrow> env \<Rightarrow> operation \<Rightarrow> dbm \<Rightarrow> error + dbm" where
  "perform cfg ev Allocation s =
     (case gimme_a_new_offset cfg ev s of Inl e \<Rightarrow> Inl e | Inr (off, s1) \<Rightarrow> Inr s1)"
| "perform cfg ev Young_promotion s = mark_unyoung_entries cfg ev s"
| "perform cfg ev (Mark_garbage off) s = mark_garbage cfg off s"
| "perform cfg ev Gc_step s = run_gc cfg ev s"
| "perform cfg ev (Start_existing mb) s = start_existing cfg ev mb s"

definition entries_in :: "entry_state set \<Rightarrow> dbm \<Rightarrow> nat set" where
  "entries_in sts s = {p \<in> dom (entries s). \<exists>en. entries s p = Some en \<and> state en \<in> sts}"

text \<open>
  The statistics as the specification states them, over the entries that are old or in
  GC, and as the code keeps them, over the old entries alone.
\<close>

definition gc_stats_as_specified :: "'f config \<Rightarrow> dbm \<Rightarrow> bool" where
  "gc_stats_as_specified cfg s \<longleftrightarrow>
     old_total_blocks s
       = int (blocks_per_extent cfg * card (entries_in {state_old, state_in_gc} s)) \<and>
     old_garbage_blocks s
       = int (\<Sum>p \<in> entries_in {state_old, state_in_gc} s. entry_count (entries s) p)"

definition gc_stats_of_old :: "'f config \<Rightarrow> dbm \<Rightarrow> bool" where
  "gc_stats_of_old cfg s \<longleftrightarrow>
     finite (dom (entries s)) \<and>
     old_total_blocks s = int (blocks_per_extent cfg * card (entries_in {state_old} s)) \<and>
     old_garbage_blocks s
       = int (\<Sum>p \<in> entries_in {state_old} s. entry_count (entries s) p)"

text \<open>
  What one place of the entry table adds to the two sums over the old entries.
\<close>

definition old_weight :: "gc_entry option \<Rightarrow> int" where
  "old_weight v = (case v of None \<Rightarrow> 0 | Some en \<Rightarrow> if state en = state_old then 1 else 0)"

definition old_garbage_weight :: "gc_entry option \<Rightarrow> int" where
  "old_garbage_weight v =
     (case v of
        None \<Rightarrow> 0
      | Some en \<Rightarrow> if state en = state_old then int (bitset_count (g_array en)) else 0)"

text \<open>
  The serializer's \<^verbatim>\<open>write_gcs\<close> re-enters the manager through its operations only;
  for the statistics this is the assumption that it keeps what they keep.
\<close>

definition write_gcs_keeps :: "(dbm \<Rightarrow> bool) \<Rightarrow> env \<Rightarrow> bool" where
  "write_gcs_keeps P ev \<longleftrightarrow> (\<forall>ws acct s. P s \<longrightarrow> P (snd (write_gcs ev ws acct s)))"

subsection \<open>A small configuration for concrete runs\<close>

text \<open>
  Extents of two blocks of four bytes, two slots for active extents of which one is in
  use, and the rationals with their exact arithmetic in the place of the floats. The
  extent manager of \<open>example_env\<close> hands out extent 0 whenever it is not in the entry
  table, else extent 1; the clock reads \<open>now\<close>.
\<close>

definition example_config :: "rat config" where
  "example_config = \<lparr>extent_size = 8, block_size = 4, MAX_ACTIVE_DATA_EXTENTS = 2,
     num_active_data_extents = 1, GC_YOUNG_EXTENT_MAX_SIZE = 50,
     GC_YOUNG_EXTENT_TIMELIMIT_MICROS = 50000, MAX_READ_AHEAD_BLOCKS = 32,
     NULL_BLOCK_ID = - 1, NULL_SER_TRANSACTION_ID = 0, sizeof_buf_data_t = 16,
     gc_low_ratio = 1 / 4, gc_high_ratio = 3 / 4, float_of_int = of_int, fadd = (+),
     fmul = (*), fdiv = (/), fgreater = (\<lambda>a b. a > b), fzero = 0, float_1_02 = 51 / 50\<rparr>"

definition example_unstarted :: dbm where
  "example_unstarted = \<lparr>dbm_state = state_unstarted, entries = Map.empty,
     reconstructed_extents = [], young_extent_queue = [], gc_pq = [],
     active_extents = (\<lambda>i. None), blocks_in_active_extent = (\<lambda>i. 0),
     next_active_extent = 0, gc_step = gc_ready, should_be_stopped = False, refcount = 0,
     current_entry = None, gc_blocks = (\<lambda>i. \<lparr>block_id = 7, transaction_id = 1\<rparr>),
     gc_disable_callback = None, shutdown_callback = None, old_total_blocks = 0,
     old_garbage_blocks = 0, io_log = []\<rparr>"

definition example_ready :: dbm where
  "example_ready = example_unstarted\<lparr>dbm_state := state_ready\<rparr>"

definition example_env :: "64 word \<Rightarrow> env" where
  "example_env now = \<lparr>gen_extent = (\<lambda>s. if entries s 0 = None then 0 else 8),
     held_extents = (\<lambda>s. 0), current_microtime = (\<lambda>s. now),
     should_perform_read_ahead = (\<lambda>s. False), write_gcs = (\<lambda>ws a s. (False, s)),
     get_block_offset = (\<lambda>s b. \<lparr>is_delete = False, has_value = True, off_value = 0\<rparr>),
     get_block_recency = (\<lambda>s b. 0), serializer_malloc = (\<lambda>s. 0),
     offer_buf_to_read_ahead_callbacks = (\<lambda>s b d r. True)\<rparr>"

text \<open>A started manager whose only extent, extent 0, is old with its first block garbage.\<close>

definition example_old :: dbm where
  "example_old = example_ready\<lparr>entries :=
       [0 \<mapsto> \<lparr>offset = 0, g_array = [True, False], timestamp = 0, state = state_old\<rparr>],
     gc_pq := [0], old_total_blocks := 2, old_garbage_blocks := 1\<rparr>"

text \<open>
  A started manager with one active extent configured and extent 1 still active in
  slot 1, one block written.
\<close>

definition example_leftover :: dbm where
  "example_leftover = example_ready\<lparr>entries :=
       [1 \<mapsto> \<lparr>offset = 8, g_array = [False, True], timestamp = 0, state = state_active\<rparr>],
     active_extents := (\<lambda>i. None)(1 := Some 1),
     blocks_in_active_extent := (\<lambda>i. 0)(1 := 1),
     io_log := [Reserve_extent 8]\<rparr>"

text \<open>A manager that has filled extent 0 with two allocations at time 0.\<close>

definition example_filled :: dbm where
  "example_filled = example_ready\<lparr>entries :=
       [0 \<mapsto> \<lparr>offset = 0, g_array = [False, False], timestamp = 0, state = state_young\<rparr>],
     young_extent_queue := [0], blocks_in_active_extent := (\<lambda>i. 0)(0 := 2)\<rparr>"

text \<open>
  Extents of four blocks: an old extent 0 whose blocks 2 and 3 are live, and the state
  after the GC has read them while block 2 was marked garbage.
\<close>

definition example_config4 :: "rat config" where
  "example_config4 = example_config\<lparr>extent_size := 16\<rparr>"

definition example_victim :: dbm where
  "example_victim = example_ready\<lparr>entries :=
       [0 \<mapsto> \<lparr>offset = 0, g_array = [True, True, False, False], timestamp = 0,
               state = state_old\<rparr>],
     gc_pq := [0], old_total_blocks := 4, old_garbage_blocks := 2,
     gc_blocks := (\<lambda>b. \<lparr>block_id = (if b = 8 then 12 else 13), transaction_id = 1\<rparr>),
     io_log := [Reserve_extent 0]\<rparr>"

definition example_read_done :: dbm where
  "example_read_done = example_victim\<lparr>entries :=
       [0 \<mapsto> \<lparr>offset = 0, g_array = [True, True, True, False], timestamp = 0,
               state = state_in_gc\<rparr>],
     gc_pq := [], current_entry := Some 0, gc_step := gc_read_lock_available,
     old_total_blocks := 0, old_garbage_blocks := 0,
     io_log := [Reserve_extent 0, Main_mutex_lock, Main_mutex_unlock,
       Read_async 8 4 (Gc_blocks_at 8) Gc_io_account_nice Gc_read_callback,
       Read_async 12 4 (Gc_blocks_at 12) Gc_io_account_nice Gc_read_callback, Main_mutex_lock]\<rparr>"

text \<open>The state after the GC has picked extent 0 of \<open>example_victim\<close> and submitted its reads.\<close>

definition example_in_gc :: dbm where
  "example_in_gc = example_victim\<lparr>entries :=
       [0 \<mapsto> \<lparr>offset = 0, g_array = [True, True, False, False], timestamp = 0,
               state = state_in_gc\<rparr>],
     gc_pq := [], current_entry := Some 0, gc_step := gc_read, refcount := 2,
     old_total_blocks := 0, old_garbage_blocks := 0,
     io_log := [Reserve_extent 0, Main_mutex_lock, Main_mutex_unlock,
       Read_async 8 4 (Gc_blocks_at 8) Gc_io_account_nice Gc_read_callback,
       Read_async 12 4 (Gc_blocks_at 12) Gc_io_account_nice Gc_read_callback]\<rparr>"

subsection \<open>What the loops leave unchanged\<close>

text \<open>
  The fields that the young promotion cannot change, and those that the deletion of
  entries cannot change.
\<close>

definition promotion_frame :: "dbm \<Rightarrow> dbm \<Rightarrow> bool" where
  "promotion_frame s s' \<longleftrightarrow>
     dbm_state s' = dbm_state s \<and> reconstructed_extents s' = reconstructed_extents s \<and>
     active_extents s' = active_extents s \<and>
     blocks_in_active_extent s' = blocks_in_active_extent s \<and>
     next_active_extent s' = next_active_extent s \<and> gc_step s' = gc_step s \<and>
     should_be_stopped s' = should_be_stopped s \<and> refcount s' = refcount s \<and>
     current_entry s' = current_entry s \<and> gc_blocks s' = gc_blocks s \<and>
     gc_disable_callback s' = gc_disable_callback s \<and>
     shutdown_callback s' = shutdown_callback s \<and> io_log s' = io_log s"

definition deletion_frame :: "dbm \<Rightarrow> dbm \<Rightarrow> bool" where
  "deletion_frame s s' \<longleftrightarrow>
     dbm_state s' = dbm_state s \<and> reconstructed_extents s' = reconstructed_extents s \<and>
     blocks_in_active_extent s' = blocks_in_active_extent s \<and>
     next_active_extent s' = next_active_extent s \<and> gc_step s' = gc_step s \<and>
     should_be_stopped s' = should_be_stopped s \<and> refcount s' = refcount s \<and>
     current_entry s' = current_entry s \<and> gc_blocks s' = gc_blocks s \<and>
     gc_disable_callback s' = gc_disable_callback s \<and>
     shutdown_callback s' = shutdown_callback s \<and> io_log s' = io_log s \<and>
     old_total_blocks s' = old_total_blocks s \<and> old_garbage_blocks s' = old_garbage_blocks s"







text \<open>
  A log \<open>l'\<close> continues a log \<open>l\<close> without a call of \<^verbatim>\<open>on_io_complete\<close> of a callback.
\<close>

definition quiet_extension :: "io_event list \<Rightarrow> io_event list \<Rightarrow> bool" where
  "quiet_extension l l' \<longleftrightarrow> (\<exists>evs. l' = l @ evs \<and> (\<forall>c. On_io_complete c \<notin> set evs))"

section \<open>Properties\<close>

lemmas example_defs = example_config_def example_unstarted_def example_env_def
  example_ready_def example_old_def blocks_per_extent_def extent_index_def block_index_def

lemmas bitset_defs = bitset_count_def bitset_get_def bitset_set_def

lemmas gimme_defs = gimme_a_new_offset_def start_new_extent_if_necessary_def new_gc_entry_def
  put_block_into_extent_def deactivate_extent_if_necessary_def

subsection \<open>Evaluating the loops\<close>

lemma upt_two: "[0 ..< 2] = [0, 1]"
  by (simp add: upt_conv_Cons)

lemma replicate_two: "replicate 2 x = [x, x]"
  by (simp add: numeral_2_eq_2)

lemma reconstructed_to_old_Nil:
  "reconstructed_extents s = [] \<Longrightarrow> reconstructed_to_old cfg s = Inr s"
  by (subst reconstructed_to_old.simps) simp

lemma delete_young_extents_Nil:
  "young_extent_queue s = [] \<Longrightarrow> delete_young_extents s = Inr s"
  by (subst delete_young_extents.simps) simp

lemma delete_pq_extents_Nil: "gc_pq s = [] \<Longrightarrow> delete_pq_extents s = Inr s"
  by (subst delete_pq_extents.simps) simp

lemma unyoung_while_too_many_done:
  "\<not> length (young_extent_queue s) > GC_YOUNG_EXTENT_MAX_SIZE cfg \<Longrightarrow>
     unyoung_while_too_many cfg s = Inr s"
  by (subst unyoung_while_too_many.simps) simp

lemma unyoung_while_too_old_Nil:
  "young_extent_queue s = [] \<Longrightarrow> unyoung_while_too_old cfg now s = Inr s"
  by (subst unyoung_while_too_old.simps) simp

lemma unyoung_while_too_old_Cons:
  "young_extent_queue s = p # rest \<Longrightarrow> entries s p = Some en \<Longrightarrow>
     unyoung_while_too_old cfg now s =
       (if now - timestamp en > GC_YOUNG_EXTENT_TIMELIMIT_MICROS cfg
        then (case remove_last_unyoung_entry cfg s of
                Inl e \<Rightarrow> Inl e
              | Inr s1 \<Rightarrow> unyoung_while_too_old cfg now s1)
        else Inr s)"
  by (subst unyoung_while_too_old.simps) simp

lemma move_along_example:
  "MAX_ACTIVE_DATA_EXTENTS cfg = 2 \<Longrightarrow> num_active_data_extents cfg = 1 \<Longrightarrow>
     act (Suc 0) = None \<Longrightarrow> move_along_to_next_extent cfg act 0 = Some 0"
  by (simp add: move_along_to_next_extent.simps [of _ _ 0]
      move_along_to_next_extent.simps [of _ _ "Suc 0"] Let_def)

lemma promote_young_spec_Nil:
  "young_extent_queue s = [] \<Longrightarrow> promote_young_spec cfg now s = Inr s"
  by (subst promote_young_spec.simps) simp

lemma promote_young_spec_Cons:
  "\<not> length (young_extent_queue s) > GC_YOUNG_EXTENT_MAX_SIZE cfg \<Longrightarrow>
     young_extent_queue s = p # rest \<Longrightarrow> entries s p = Some en \<Longrightarrow>
     promote_young_spec cfg now s =
       (if now - timestamp en > GC_YOUNG_EXTENT_TIMELIMIT_MICROS cfg
        then (case remove_last_unyoung_entry cfg s of
                Inl e \<Rightarrow> Inl e
              | Inr s1 \<Rightarrow> promote_young_spec cfg now s1)
        else Inr s)"
  by (subst promote_young_spec.simps) simp

lemmas loop_ends = reconstructed_to_old_Nil delete_young_extents_Nil delete_pq_extents_Nil
  unyoung_while_too_many_done unyoung_while_too_old_Nil

lemma upt_four: "[0 ..< 4] = [0, 1, 2, 3]"
  by (simp add: upt_conv_Cons)

lemmas example4_defs = example_config4_def example_victim_def example_read_done_def

lemma run_gc_steps:
  "gc_step s = gc_ready \<Longrightarrow> run_gc cfg ev s = gc_ready_case cfg ev s"
  "gc_step s = gc_ready_lock_available \<Longrightarrow>
     run_gc cfg ev s = gc_ready_lock_available_case cfg ev s"
  "gc_step s = gc_read \<Longrightarrow> run_gc cfg ev s = gc_read_case s"
  "gc_step s = gc_reconstruct \<Longrightarrow> run_gc cfg ev s = Inl Unreachable"
  by (subst run_gc.simps, simp)+

lemma run_gc_read_lock_available:
  "gc_step s = gc_read_lock_available \<Longrightarrow>
     run_gc cfg ev s =
       (case gc_read_lock_available_case cfg ev s of
          Inl e \<Rightarrow> Inl e
        | Inr (done, s1) \<Rightarrow>
            if \<not> done then Inr s1
            else (case gc_write_case cfg ev s1 of
                    Inl e \<Rightarrow> Inl e
                  | Inr (run_again, s2) \<Rightarrow> if run_again then run_gc cfg ev s2 else Inr s2))"
  by (subst run_gc.simps) simp

lemma run_gc_write:
  "gc_step s = gc_write \<Longrightarrow>
     run_gc cfg ev s =
       (case gc_write_case cfg ev s of
          Inl e \<Rightarrow> Inl e
        | Inr (run_again, s2) \<Rightarrow> if run_again then run_gc cfg ev s2 else Inr s2)"
  by (subst run_gc.simps) simp

text \<open>The first two allocations of a started manager fill extent 0.\<close>

lemma example_first_allocation:
  "gimme_a_new_offset example_config (example_env 0) example_ready
      = Inr (0, example_ready\<lparr>entries :=
          [0 \<mapsto> \<lparr>offset = 0, g_array = [False, True], timestamp = 0, state = state_active\<rparr>],
          active_extents := (\<lambda>i. None)(0 := Some 0),
          blocks_in_active_extent := (\<lambda>i. 0)(0 := 1)\<rparr>)"
  by (simp add: gimme_defs example_defs bitset_defs Let_def replicate_two move_along_example)

lemma example_second_allocation:
  "gimme_a_new_offset example_config (example_env 0)
       (example_ready\<lparr>entries :=
          [0 \<mapsto> \<lparr>offset = 0, g_array = [False, True], timestamp = 0, state = state_active\<rparr>],
          active_extents := (\<lambda>i. None)(0 := Some 0),
          blocks_in_active_extent := (\<lambda>i. 0)(0 := 1)\<rparr>)
      = Inr (4, example_filled)"
  by (simp add: gimme_defs example_defs example_filled_def bitset_defs Let_def
      move_along_example mark_unyoung_entries_def loop_ends unyoung_while_too_old_Cons
      numeral_2_eq_2)

subsection \<open>The garbage ratio\<close>

text \<open>
  Claim C9. \<^verbatim>\<open>garbage_ratio()\<close> returns 0 whenever \<^verbatim>\<open>old_total_blocks\<close> is zero,
  whatever the number of extents the extent manager holds, and otherwise the float
  quotient of \<^verbatim>\<open>old_garbage_blocks\<close> by the float sum of \<^verbatim>\<open>old_total_blocks\<close> and
  the product of the held extents and the blocks per extent.
\<close>

theorem garbage_ratio_value:
  "(old_total_blocks s = 0 \<longrightarrow> garbage_ratio cfg ev s = fzero cfg) \<and>
   (old_total_blocks s \<noteq> 0 \<longrightarrow>
      garbage_ratio cfg ev s =
        fdiv cfg (float_of_int cfg (old_garbage_blocks s))
          (fadd cfg (float_of_int cfg (old_total_blocks s))
             (float_of_int cfg (int (held_extents ev s * blocks_per_extent cfg)))))"
  by (simp add: garbage_ratio_def)

theorem garbage_ratio_value_witness:
  "garbage_ratio example_config ((example_env 0)\<lparr>held_extents := (\<lambda>s. 3)\<rparr>) example_unstarted
     = 0 \<and>
   garbage_ratio example_config ((example_env 0)\<lparr>held_extents := (\<lambda>s. 3)\<rparr>)
     (example_unstarted\<lparr>old_total_blocks := 2, old_garbage_blocks := 1\<rparr>) = 1 / 8"
  using garbage_ratio_value [of example_unstarted example_config
      "(example_env 0)\<lparr>held_extents := (\<lambda>s. 3)\<rparr>"]
    garbage_ratio_value [of "example_unstarted\<lparr>old_total_blocks := 2, old_garbage_blocks := 1\<rparr>"
      example_config "(example_env 0)\<lparr>held_extents := (\<lambda>s. 3)\<rparr>"]
  by (simp add: example_defs)

subsection \<open>Reading and writing never complete synchronously\<close>

lemma io_log_log_io: "io_log (log_io e s) = io_log s @ [e]"
  by (simp add: log_io_def)

lemma read_ahead_blocks_returns:
  "0 < block_size cfg \<Longrightarrow> \<exists>s'. read_ahead_blocks cfg ev fsm blocks k s = Inr s'"
proof (induction cfg ev fsm blocks k s rule: read_ahead_blocks.induct)
  case (1 cfg ev fsm blocks current_block s)
  show ?case
    apply (subst read_ahead_blocks.simps)
    using 1 by (simp add: Let_def)
qed

lemma quiet_refl: "quiet_extension l l"
  by (simp add: quiet_extension_def)

lemma quiet_step:
  "quiet_extension (l @ es) l' \<Longrightarrow> (\<forall>c. On_io_complete c \<notin> set es) \<Longrightarrow> quiet_extension l l'"
  by (auto simp: quiet_extension_def)

lemma read_ahead_blocks_log:
  "read_ahead_blocks cfg ev fsm blocks k s = Inr s' \<Longrightarrow>
   quiet_extension (io_log s) (io_log s')"
proof (induction cfg ev fsm blocks k s rule: read_ahead_blocks.induct)
  case (1 cfg ev fsm blocks current_block s)
  note IH = "1.IH" [OF _ _ refl refl, simplified io_log_log_io, simplified]
  from "1.prems" show ?case
    apply (subst (asm) read_ahead_blocks.simps)
    apply (simp add: Let_def split: if_splits)
        apply (simp add: quiet_refl)
    subgoal
      apply (drule IH(1) [rotated -1])
      apply (simp_all add: io_log_log_io)
      apply ((erule quiet_step, simp)?)
      done
    subgoal
      apply (drule IH(2) [rotated -1])
      apply (simp_all add: io_log_log_io)
      apply ((erule quiet_step, simp)?)
      done
    subgoal
      apply (drule IH(3) [rotated -1])
      apply (simp_all add: io_log_log_io)
      apply ((erule quiet_step, simp)?)
      done
    subgoal
      apply (drule IH(4) [rotated -1])
      apply (simp_all add: io_log_log_io)
      apply ((erule quiet_step, simp)?)
      done
    done
qed

lemma fsm_on_io_complete_log:
  assumes "fsm_on_io_complete cfg ev fsm blocks t = Inr t'"
  shows "\<exists>evs. io_log t' = io_log t @ evs @ [Free_read_ahead_buf, On_io_complete (fsm_callback fsm)]
    \<and> (\<forall>c. On_io_complete c \<notin> set evs)"
proof -
  from assms obtain t1 where l: "read_ahead_blocks cfg ev fsm blocks 0 t = Inr t1"
    and t': "t' = log_io (On_io_complete (fsm_callback fsm)) (log_io Free_read_ahead_buf t1)"
    by (auto simp: fsm_on_io_complete_def split: if_splits sum.splits)
  from read_ahead_blocks_log [OF l] obtain evs
    where "io_log t1 = io_log t @ evs" "\<forall>c. On_io_complete c \<notin> set evs"
    by (auto simp: quiet_extension_def)
  with t' show ?thesis by (simp add: io_log_log_io)
qed

lemma new_fsm_fields:
  "fsm_callback (new_dbm_read_ahead_fsm_t cfg off_in buf_out cb) = cb"
  "fsm_off_in (new_dbm_read_ahead_fsm_t cfg off_in buf_out cb) = off_in"
  "fsm_buf_out (new_dbm_read_ahead_fsm_t cfg off_in buf_out cb) = buf_out"
  "fsm_read_ahead_size (new_dbm_read_ahead_fsm_t cfg off_in buf_out cb)
     = min (extent_size cfg) (MAX_READ_AHEAD_BLOCKS cfg * block_size cfg)"
  "fsm_read_ahead_offset (new_dbm_read_ahead_fsm_t cfg off_in buf_out cb)
     = off_in - off_in mod extent_size cfg
       + off_in mod extent_size cfg
           div min (extent_size cfg) (MAX_READ_AHEAD_BLOCKS cfg * block_size cfg)
           * min (extent_size cfg) (MAX_READ_AHEAD_BLOCKS cfg * block_size cfg)"
  by (simp_all add: new_dbm_read_ahead_fsm_t_def Let_def)

lemma chunk_bounds:
  fixes x r e :: nat
  assumes "0 < r"
  shows "e + x div r * r \<le> e + x" "e + x < e + x div r * r + r"
    "e + x - (e + x div r * r) = x mod r"
proof -
  have a: "x div r * r + x mod r = x" by simp
  from a show "e + x div r * r \<le> e + x" by arith
  from a mod_less_divisor [OF assms, of x] show "e + x < e + x div r * r + r" by arith
  from a show "e + x - (e + x div r * r) = x mod r" by arith
qed

lemma new_fsm_assertions:
  assumes "0 < extent_size cfg" "0 < MAX_READ_AHEAD_BLOCKS cfg" "0 < block_size cfg"
    "block_size cfg dvd extent_size cfg" "block_size cfg dvd off_in"
  shows "fsm_read_ahead_offset (new_dbm_read_ahead_fsm_t cfg off_in buf_out cb) \<le> off_in"
    "off_in < fsm_read_ahead_offset (new_dbm_read_ahead_fsm_t cfg off_in buf_out cb)
       + fsm_read_ahead_size (new_dbm_read_ahead_fsm_t cfg off_in buf_out cb)"
    "(off_in - fsm_read_ahead_offset (new_dbm_read_ahead_fsm_t cfg off_in buf_out cb))
       mod block_size cfg = 0"
proof -
  let ?r = "min (extent_size cfg) (MAX_READ_AHEAD_BLOCKS cfg * block_size cfg)"
  let ?x = "off_in mod extent_size cfg"
  let ?e = "off_in - ?x"
  from assms have r: "0 < ?r" by simp
  have ex: "?e + ?x = off_in" by (simp add: mod_less_eq_dividend)
  have dx: "block_size cfg dvd ?x" using assms(4,5) by (simp add: dvd_mod)
  have dr: "block_size cfg dvd ?r" using assms(4) by (simp add: min_def)
  have dm: "block_size cfg dvd ?x mod ?r" using dx dr by (rule dvd_mod)
  from chunk_bounds(1) [OF r, of ?e ?x] ex
  show "fsm_read_ahead_offset (new_dbm_read_ahead_fsm_t cfg off_in buf_out cb) \<le> off_in"
    by (simp only: new_fsm_fields)
  from chunk_bounds(2) [OF r, of ?e ?x] ex
  show "off_in < fsm_read_ahead_offset (new_dbm_read_ahead_fsm_t cfg off_in buf_out cb)
       + fsm_read_ahead_size (new_dbm_read_ahead_fsm_t cfg off_in buf_out cb)"
    by (simp only: new_fsm_fields)
  from chunk_bounds(3) [OF r, of ?e ?x] ex
  have "off_in - fsm_read_ahead_offset (new_dbm_read_ahead_fsm_t cfg off_in buf_out cb)
      = ?x mod ?r"
    by (simp only: new_fsm_fields)
  with dm
  show "(off_in - fsm_read_ahead_offset (new_dbm_read_ahead_fsm_t cfg off_in buf_out cb))
       mod block_size cfg = 0"
    by (simp only: dvd_eq_mod_eq_0)
qed

lemma fsm_on_io_complete_returns:
  assumes "0 < extent_size cfg" "0 < MAX_READ_AHEAD_BLOCKS cfg" "0 < block_size cfg"
    "block_size cfg dvd extent_size cfg" "block_size cfg dvd off_in"
  shows "\<exists>t'. fsm_on_io_complete cfg ev (new_dbm_read_ahead_fsm_t cfg off_in buf_out cb)
            blocks t = Inr t'"
proof -
  let ?f = "new_dbm_read_ahead_fsm_t cfg off_in buf_out cb"
  from read_ahead_blocks_returns [OF assms(3)]
  obtain t1 where "read_ahead_blocks cfg ev ?f blocks 0 t = Inr t1" by blast
  with new_fsm_assertions [OF assms, of buf_out cb] assms(3) show ?thesis
    by (simp add: fsm_on_io_complete_def new_fsm_fields(2))
qed

lemma read_fn_not_true: "read_fn cfg ev off_in buf_out acct cb s \<noteq> Inr (True, s')"
  by (simp add: read_fn_def Let_def)

lemma write_fn_not_true:
  "write_fn cfg ev buf_in hdr blk txn acct cb s \<noteq> Inr ((True, off), s')"
  by (simp add: write_fn_def split: sum.splits prod.splits)

lemma read_fn_result:
  assumes "dbm_state s = state_ready" "0 < extent_size cfg"
    "0 < MAX_READ_AHEAD_BLOCKS cfg * block_size cfg"
  shows "read_fn cfg ev off_in buf_out acct cb s = Inr (False,
     log_io (if should_perform_read_ahead ev s
       then Read_async
         (fsm_read_ahead_offset (new_dbm_read_ahead_fsm_t cfg off_in buf_out cb))
         (fsm_read_ahead_size (new_dbm_read_ahead_fsm_t cfg off_in buf_out cb))
         Read_ahead_buf acct (Read_ahead_fsm (new_dbm_read_ahead_fsm_t cfg off_in buf_out cb))
       else Read_async off_in (block_size cfg) (Caller_buffer buf_out) acct
         (Caller_callback cb)) s)"
  using assms by (simp add: read_fn_def Let_def new_fsm_fields(4) min_def)

lemma write_fn_result:
  assumes "dbm_state s = state_ready
      \<or> dbm_state s = state_shutting_down \<and> gc_step s = gc_write"
    "gimme_a_new_offset cfg ev s = Inr (off, s2)"
    "txn \<noteq> NULL_SER_TRANSACTION_ID cfg \<or> block_id hdr = blk"
  shows "write_fn cfg ev buf_in hdr blk txn acct cb s = Inr ((False, off),
     log_io (Write_async off (block_size cfg)
       (if txn \<noteq> NULL_SER_TRANSACTION_ID cfg
        then \<lparr>block_id = blk, transaction_id = txn\<rparr> else hdr) buf_in acct cb) s2)"
  using assms by (auto simp: write_fn_def)

text \<open>
  Claim C10. \<^verbatim>\<open>read\<close> and \<^verbatim>\<open>write\<close> never return true, and the completion is
  left to the caller's callback. A read in state \<^verbatim>\<open>ready\<close> returns false after one
  call of \<^verbatim>\<open>read_async\<close>: without read-ahead with the caller's callback \<open>cb\<close>,
  with read-ahead with a machine that holds \<open>cb\<close>. When the file completes the read of
  such a machine, \<^verbatim>\<open>on_io_complete\<close> of the machine, whenever it returns, has called
  \<^verbatim>\<open>on_io_complete\<close> of \<open>cb\<close> as its last call and of no callback before; and it does
  return for a block-aligned offset when extents are made of blocks. A write whose
  allocation returns and whose header check holds returns false after one call of
  \<^verbatim>\<open>write_async\<close> with \<open>cb\<close>. Every other outcome of either is an abort.
\<close>

theorem read_write_return_false:
  "read_fn cfg ev off_in buf_out acct cb s \<noteq> Inr (True, s') \<and>
   write_fn cfg ev buf_in hdr blk txn acct cb s \<noteq> Inr ((True, off), s') \<and>
   (dbm_state s = state_ready \<and> 0 < extent_size cfg
      \<and> 0 < MAX_READ_AHEAD_BLOCKS cfg * block_size cfg
    \<longrightarrow> read_fn cfg ev off_in buf_out acct cb s = Inr (False,
          log_io (if should_perform_read_ahead ev s
            then Read_async
              (fsm_read_ahead_offset (new_dbm_read_ahead_fsm_t cfg off_in buf_out cb))
              (fsm_read_ahead_size (new_dbm_read_ahead_fsm_t cfg off_in buf_out cb))
              Read_ahead_buf acct
              (Read_ahead_fsm (new_dbm_read_ahead_fsm_t cfg off_in buf_out cb))
            else Read_async off_in (block_size cfg) (Caller_buffer buf_out) acct
              (Caller_callback cb)) s)) \<and>
   fsm_callback (new_dbm_read_ahead_fsm_t cfg off_in buf_out cb) = cb \<and>
   (fsm_on_io_complete cfg ev' (new_dbm_read_ahead_fsm_t cfg off_in buf_out cb) blocks t
      = Inr t'
    \<longrightarrow> (\<exists>evs. io_log t' = io_log t @ evs @ [Free_read_ahead_buf, On_io_complete cb]
          \<and> (\<forall>c. On_io_complete c \<notin> set evs))) \<and>
   (0 < extent_size cfg \<and> 0 < MAX_READ_AHEAD_BLOCKS cfg \<and> 0 < block_size cfg
      \<and> block_size cfg dvd extent_size cfg \<and> block_size cfg dvd off_in
    \<longrightarrow> (\<exists>t1. fsm_on_io_complete cfg ev' (new_dbm_read_ahead_fsm_t cfg off_in buf_out cb)
            blocks t = Inr t1)) \<and>
   ((dbm_state s = state_ready \<or> dbm_state s = state_shutting_down \<and> gc_step s = gc_write)
      \<and> gimme_a_new_offset cfg ev s = Inr (off, s2)
      \<and> (txn \<noteq> NULL_SER_TRANSACTION_ID cfg \<or> block_id hdr = blk)
    \<longrightarrow> write_fn cfg ev buf_in hdr blk txn acct cb s = Inr ((False, off),
          log_io (Write_async off (block_size cfg)
            (if txn \<noteq> NULL_SER_TRANSACTION_ID cfg
             then \<lparr>block_id = blk, transaction_id = txn\<rparr> else hdr) buf_in acct cb) s2))"
proof (intro conjI impI)
  show "read_fn cfg ev off_in buf_out acct cb s \<noteq> Inr (True, s')"
    by (rule read_fn_not_true)
  show "write_fn cfg ev buf_in hdr blk txn acct cb s \<noteq> Inr ((True, off), s')"
    by (rule write_fn_not_true)
  show "fsm_callback (new_dbm_read_ahead_fsm_t cfg off_in buf_out cb) = cb"
    by (rule new_fsm_fields)
next
  assume "dbm_state s = state_ready \<and> 0 < extent_size cfg
      \<and> 0 < MAX_READ_AHEAD_BLOCKS cfg * block_size cfg"
  then show "read_fn cfg ev off_in buf_out acct cb s = Inr (False,
          log_io (if should_perform_read_ahead ev s
            then Read_async
              (fsm_read_ahead_offset (new_dbm_read_ahead_fsm_t cfg off_in buf_out cb))
              (fsm_read_ahead_size (new_dbm_read_ahead_fsm_t cfg off_in buf_out cb))
              Read_ahead_buf acct
              (Read_ahead_fsm (new_dbm_read_ahead_fsm_t cfg off_in buf_out cb))
            else Read_async off_in (block_size cfg) (Caller_buffer buf_out) acct
              (Caller_callback cb)) s)"
    by (intro read_fn_result) simp_all
next
  assume "fsm_on_io_complete cfg ev' (new_dbm_read_ahead_fsm_t cfg off_in buf_out cb) blocks t
      = Inr t'"
  from fsm_on_io_complete_log [OF this]
  show "\<exists>evs. io_log t' = io_log t @ evs @ [Free_read_ahead_buf, On_io_complete cb]
          \<and> (\<forall>c. On_io_complete c \<notin> set evs)"
    by (simp only: new_fsm_fields(1))
next
  assume "0 < extent_size cfg \<and> 0 < MAX_READ_AHEAD_BLOCKS cfg \<and> 0 < block_size cfg
      \<and> block_size cfg dvd extent_size cfg \<and> block_size cfg dvd off_in"
  then show "\<exists>t1. fsm_on_io_complete cfg ev' (new_dbm_read_ahead_fsm_t cfg off_in buf_out cb)
            blocks t = Inr t1"
    by (intro fsm_on_io_complete_returns) simp_all
next
  assume "(dbm_state s = state_ready
        \<or> dbm_state s = state_shutting_down \<and> gc_step s = gc_write)
      \<and> gimme_a_new_offset cfg ev s = Inr (off, s2)
      \<and> (txn \<noteq> NULL_SER_TRANSACTION_ID cfg \<or> block_id hdr = blk)"
  then show "write_fn cfg ev buf_in hdr blk txn acct cb s = Inr ((False, off),
          log_io (Write_async off (block_size cfg)
            (if txn \<noteq> NULL_SER_TRANSACTION_ID cfg
             then \<lparr>block_id = blk, transaction_id = txn\<rparr> else hdr) buf_in acct cb) s2)"
    by (intro write_fn_result) simp_all
qed

theorem read_write_return_false_witness:
  "read_fn example_config (example_env 0) 4 0 (Caller_account 0) 3 example_ready
     = Inr (False, example_ready\<lparr>io_log :=
         [Read_async 4 4 (Caller_buffer 0) (Caller_account 0) (Caller_callback 3)]\<rparr>) \<and>
   read_fn example_config ((example_env 0)\<lparr>should_perform_read_ahead := \<lambda>s. True\<rparr>) 4 0
       (Caller_account 0) 3 example_ready
     = Inr (False, example_ready\<lparr>io_log :=
         [Read_async 0 8 Read_ahead_buf (Caller_account 0)
            (Read_ahead_fsm \<lparr>fsm_callback = 3, fsm_extent = 0, fsm_read_ahead_size = 8,
               fsm_read_ahead_offset = 0, fsm_off_in = 4, fsm_buf_out = 0\<rparr>)]\<rparr>) \<and>
   (\<exists>t1 evs. fsm_on_io_complete example_config (example_env 0)
        \<lparr>fsm_callback = 3, fsm_extent = 0, fsm_read_ahead_size = 8,
           fsm_read_ahead_offset = 0, fsm_off_in = 4, fsm_buf_out = 0\<rparr>
        (\<lambda>i. \<lparr>block_id = 7, transaction_id = 1\<rparr>) example_ready = Inr t1
      \<and> io_log t1 = evs @ [Free_read_ahead_buf, On_io_complete 3]
      \<and> (\<forall>c. On_io_complete c \<notin> set evs)) \<and>
   (\<exists>s2. write_fn example_config (example_env 0) 0 \<lparr>block_id = 0, transaction_id = 0\<rparr> 7 1
            (Caller_account 0) 3 example_ready
      = Inr ((False, 0), log_io (Write_async 0 4 \<lparr>block_id = 7, transaction_id = 1\<rparr> 0
                (Caller_account 0) 3) s2))"
proof -
  let ?ra = "(example_env 0)\<lparr>should_perform_read_ahead := \<lambda>s. True\<rparr>"
  let ?hdr = "\<lparr>block_id = 0, transaction_id = 0\<rparr> :: buf_data_t"
  let ?blocks = "\<lambda>i::nat. \<lparr>block_id = 7, transaction_id = 1\<rparr> :: buf_data_t"
  have f: "new_dbm_read_ahead_fsm_t example_config 4 0 3
      = \<lparr>fsm_callback = 3, fsm_extent = 0, fsm_read_ahead_size = 8,
           fsm_read_ahead_offset = 0, fsm_off_in = 4, fsm_buf_out = 0\<rparr>"
    by (simp add: new_dbm_read_ahead_fsm_t_def example_defs Let_def)
  obtain s2 where g:
    "gimme_a_new_offset example_config (example_env 0) example_ready = Inr (0, s2)"
    by (simp add: gimme_defs example_defs bitset_defs Let_def
      move_along_to_next_extent.simps [of _ _ 0]
      move_along_to_next_extent.simps [of _ _ "Suc 0"])
  note plain = read_write_return_false [where cfg = example_config and ev = "example_env 0"
      and off_in = 4 and buf_out = 0 and acct = "Caller_account 0" and cb = 3
      and s = example_ready and buf_in = 0 and hdr = ?hdr and blk = 7 and txn = 1
      and off = 0 and ?s2.0 = s2 and ev' = "example_env 0" and blocks = ?blocks
      and t = example_ready]
  note ahead = read_write_return_false [where cfg = example_config and ev = ?ra
      and off_in = 4 and buf_out = 0 and acct = "Caller_account 0" and cb = 3
      and s = example_ready]
  have r1: "read_fn example_config (example_env 0) 4 0 (Caller_account 0) 3 example_ready
     = Inr (False, example_ready\<lparr>io_log :=
         [Read_async 4 4 (Caller_buffer 0) (Caller_account 0) (Caller_callback 3)]\<rparr>)"
    using plain [THEN conjunct2, THEN conjunct2, THEN conjunct1]
    by (simp add: example_defs log_io_def)
  have r2: "read_fn example_config ?ra 4 0 (Caller_account 0) 3 example_ready
     = Inr (False, example_ready\<lparr>io_log :=
         [Read_async 0 8 Read_ahead_buf (Caller_account 0)
            (Read_ahead_fsm \<lparr>fsm_callback = 3, fsm_extent = 0, fsm_read_ahead_size = 8,
               fsm_read_ahead_offset = 0, fsm_off_in = 4, fsm_buf_out = 0\<rparr>)]\<rparr>)"
    using ahead [THEN conjunct2, THEN conjunct2, THEN conjunct1]
    by (simp add: f) (simp add: example_defs log_io_def)
  from plain [THEN conjunct2, THEN conjunct2, THEN conjunct2, THEN conjunct2,
      THEN conjunct2, THEN conjunct1]
  obtain t1 where c: "fsm_on_io_complete example_config (example_env 0)
      (new_dbm_read_ahead_fsm_t example_config 4 0 3) ?blocks example_ready = Inr t1"
    by (auto simp: example_config_def)
  from c read_write_return_false [where cfg = example_config and off_in = 4 and buf_out = 0
      and cb = 3 and ev' = "example_env 0" and blocks = ?blocks and t = example_ready
      and t' = t1, THEN conjunct2, THEN conjunct2, THEN conjunct2, THEN conjunct2,
      THEN conjunct1]
  obtain evs where "io_log t1 = evs @ [Free_read_ahead_buf, On_io_complete 3]"
    "\<forall>c. On_io_complete c \<notin> set evs"
    by (auto simp: example_ready_def example_unstarted_def)
  with c have r3: "\<exists>t1 evs. fsm_on_io_complete example_config (example_env 0)
        \<lparr>fsm_callback = 3, fsm_extent = 0, fsm_read_ahead_size = 8,
           fsm_read_ahead_offset = 0, fsm_off_in = 4, fsm_buf_out = 0\<rparr>
        ?blocks example_ready = Inr t1
      \<and> io_log t1 = evs @ [Free_read_ahead_buf, On_io_complete 3]
      \<and> (\<forall>c. On_io_complete c \<notin> set evs)"
    unfolding f by blast
  have r4: "\<exists>s2. write_fn example_config (example_env 0) 0 ?hdr 7 1
            (Caller_account 0) 3 example_ready
      = Inr ((False, 0), log_io (Write_async 0 4 \<lparr>block_id = 7, transaction_id = 1\<rparr> 0
                (Caller_account 0) 3) s2)"
    using g plain [THEN conjunct2, THEN conjunct2, THEN conjunct2, THEN conjunct2,
      THEN conjunct2, THEN conjunct2]
    by (auto simp: example_config_def example_ready_def)
  from r1 r2 r3 r4 show ?thesis by (intro conjI)
qed

subsection \<open>Marking a block as garbage\<close>

lemma mark_garbage_young:
  assumes "entries s (extent_index cfg off) = Some en"
    "block_index cfg off < length (g_array en)" "\<not> g_array en ! block_index cfg off"
    "mark_garbage cfg off s = Inr s'"
    "bitset_count ((g_array en)[block_index cfg off := True]) = blocks_per_extent cfg"
    "state en = state_young"
  shows "s' = s\<lparr>entries := (entries s)(extent_index cfg off := None),
                young_extent_queue := remove1 (extent_index cfg off) (young_extent_queue s),
                io_log := io_log s @ [Release_extent (offset en)]\<rparr>"
  using assms
  by (auto simp: mark_garbage_def Let_def bitset_get_def bitset_set_def destroy_def
      delete_entry_def log_io_def split: if_splits)

lemma mark_garbage_old_full:
  assumes "entries s (extent_index cfg off) = Some en"
    "block_index cfg off < length (g_array en)" "\<not> g_array en ! block_index cfg off"
    "mark_garbage cfg off s = Inr s'"
    "bitset_count ((g_array en)[block_index cfg off := True]) = blocks_per_extent cfg"
    "state en = state_old"
  shows "s' = s\<lparr>entries := (entries s)(extent_index cfg off := None),
                gc_pq := remove1 (extent_index cfg off) (gc_pq s),
                old_total_blocks := old_total_blocks s - int (blocks_per_extent cfg),
                old_garbage_blocks := old_garbage_blocks s + 1 - int (blocks_per_extent cfg),
                io_log := io_log s @ [Release_extent (offset en)]\<rparr>"
  using assms
  by (auto simp: mark_garbage_def Let_def bitset_get_def bitset_set_def destroy_def
      delete_entry_def log_io_def pq_remove_def split: if_splits)

lemma mark_garbage_in_gc:
  assumes "entries s (extent_index cfg off) = Some en"
    "block_index cfg off < length (g_array en)" "\<not> g_array en ! block_index cfg off"
    "mark_garbage cfg off s = Inr s'"
    "bitset_count ((g_array en)[block_index cfg off := True]) = blocks_per_extent cfg"
    "state en = state_in_gc"
  shows "current_entry s = Some (extent_index cfg off) \<and>
         s' = s\<lparr>entries := (entries s)(extent_index cfg off := None),
                current_entry := None,
                io_log := io_log s @ [Release_extent (offset en)]\<rparr>"
  using assms
  by (auto simp: mark_garbage_def Let_def bitset_get_def bitset_set_def destroy_def
      delete_entry_def log_io_def split: if_splits)

lemma mark_garbage_not_reconstructing:
  assumes "entries s (extent_index cfg off) = Some en"
    "block_index cfg off < length (g_array en)" "\<not> g_array en ! block_index cfg off"
    "mark_garbage cfg off s = Inr s'"
    "bitset_count ((g_array en)[block_index cfg off := True]) = blocks_per_extent cfg"
  shows "state en \<noteq> state_reconstructing"
  using assms
  by (auto simp: mark_garbage_def Let_def bitset_get_def bitset_set_def split: if_splits)

lemma mark_garbage_kept:
  assumes "entries s (extent_index cfg off) = Some en"
    "block_index cfg off < length (g_array en)" "\<not> g_array en ! block_index cfg off"
    "mark_garbage cfg off s = Inr s'"
    "\<not> (bitset_count ((g_array en)[block_index cfg off := True]) = blocks_per_extent cfg
        \<and> state en \<noteq> state_active)"
  shows "s' = (if state en = state_old
          then s\<lparr>entries := (entries s)(extent_index cfg off \<mapsto>
                     en\<lparr>g_array := (g_array en)[block_index cfg off := True]\<rparr>),
                 old_garbage_blocks := old_garbage_blocks s + 1,
                 gc_pq := pq_insert
                   (entry_count ((entries s)(extent_index cfg off \<mapsto>
                     en\<lparr>g_array := (g_array en)[block_index cfg off := True]\<rparr>)))
                   (extent_index cfg off) (remove1 (extent_index cfg off) (gc_pq s))\<rparr>
          else s\<lparr>entries := (entries s)(extent_index cfg off \<mapsto>
                     en\<lparr>g_array := (g_array en)[block_index cfg off := True]\<rparr>)\<rparr>)"
  using assms
  by (auto simp: mark_garbage_def Let_def bitset_get_def bitset_set_def pq_update_def
      split: if_splits)

text \<open>
  When the call returns. The call aborts on an entry that is still
  \<^verbatim>\<open>reconstructing\<close> and becomes all garbage, which the code marks unreachable.
\<close>

lemma mark_garbage_returns:
  assumes "entries s (extent_index cfg off) = Some en"
    "block_index cfg off < length (g_array en)" "\<not> g_array en ! block_index cfg off"
    "length (g_array en) = blocks_per_extent cfg"
    "bitset_count ((g_array en)[block_index cfg off := True]) \<noteq> blocks_per_extent cfg
     \<or> state en = state_active \<or> state en = state_young \<or> state en = state_old
     \<or> state en = state_in_gc \<and> current_entry s = Some (extent_index cfg off)"
  shows "\<exists>s'. mark_garbage cfg off s = Inr s'"
  using assms
  by (auto simp: mark_garbage_def Let_def bitset_get_def bitset_set_def destroy_def
      delete_entry_def log_io_def pq_remove_def split: entry_state.splits)

lemma mark_garbage_reconstructing_aborts:
  assumes "entries s (extent_index cfg off) = Some en"
    "block_index cfg off < length (g_array en)" "\<not> g_array en ! block_index cfg off"
    "length (g_array en) = blocks_per_extent cfg"
    "bitset_count ((g_array en)[block_index cfg off := True]) = blocks_per_extent cfg"
    "state en = state_reconstructing"
  shows "mark_garbage cfg off s = Inl Unreachable"
  using assms
  by (simp add: mark_garbage_def Let_def bitset_get_def bitset_set_def)

text \<open>
  Claim C2. \<^verbatim>\<open>mark_garbage(offset)\<close> on an offset whose bit is 0 sets the bit. When
  all bits of the entry are then set and the entry is not active, the same call takes the
  entry out of its container (the young queue for a young entry; the priority queue for
  an old one, both statistics going down by the blocks per extent after the increment of
  the garbage count; the current GC victim becoming null for one in GC), removes it from
  the entry table and releases its extent. Otherwise the entry stays with the bit set,
  and for an old entry the garbage count goes up by one and the entry is repositioned in
  the priority queue; nothing else changes.
\<close>

theorem mark_garbage_effect:
  assumes "entries s (extent_index cfg off) = Some en"
    and "block_index cfg off < length (g_array en)"
    and "\<not> g_array en ! block_index cfg off"
    and "mark_garbage cfg off s = Inr s'"
  shows
    "let p = extent_index cfg off;
         flipped = en\<lparr>g_array := (g_array en)[block_index cfg off := True]\<rparr>;
         gone = (entries s)(p := None);
         released = io_log s @ [Release_extent (offset en)]
     in g_array flipped ! block_index cfg off \<and>
        (if bitset_count (g_array flipped) = blocks_per_extent cfg \<and> state en \<noteq> state_active
         then state en = state_young \<and>
                s' = s\<lparr>entries := gone,
                       young_extent_queue := remove1 p (young_extent_queue s),
                       io_log := released\<rparr>
              \<or> state en = state_old \<and>
                s' = s\<lparr>entries := gone, gc_pq := remove1 p (gc_pq s),
                       old_total_blocks := old_total_blocks s - int (blocks_per_extent cfg),
                       old_garbage_blocks :=
                         old_garbage_blocks s + 1 - int (blocks_per_extent cfg),
                       io_log := released\<rparr>
              \<or> state en = state_in_gc \<and> current_entry s = Some p \<and>
                s' = s\<lparr>entries := gone, current_entry := None, io_log := released\<rparr>
         else if state en = state_old
         then s' = s\<lparr>entries := (entries s)(p \<mapsto> flipped),
                     old_garbage_blocks := old_garbage_blocks s + 1,
                     gc_pq := pq_insert (entry_count ((entries s)(p \<mapsto> flipped))) p
                                (remove1 p (gc_pq s))\<rparr>
         else s' = s\<lparr>entries := (entries s)(p \<mapsto> flipped)\<rparr>)"
proof (cases "bitset_count ((g_array en)[block_index cfg off := True]) = blocks_per_extent cfg
    \<and> state en \<noteq> state_active")
  case True
  then have full: "bitset_count ((g_array en)[block_index cfg off := True])
      = blocks_per_extent cfg" and "state en \<noteq> state_active"
    by simp_all
  moreover have "state en \<noteq> state_reconstructing"
    using mark_garbage_not_reconstructing [OF assms full] .
  ultimately consider "state en = state_young" | "state en = state_old"
    | "state en = state_in_gc"
    by (cases "state en") simp_all
  then show ?thesis
  proof cases
    case 1
    with mark_garbage_young [OF assms full] True assms(2) show ?thesis
      by (simp add: Let_def)
  next
    case 2
    with mark_garbage_old_full [OF assms full] True assms(2) show ?thesis
      by (simp add: Let_def)
  next
    case 3
    with mark_garbage_in_gc [OF assms full] True assms(2) show ?thesis
      by (simp add: Let_def)
  qed
next
  case False
  with mark_garbage_kept [OF assms] assms(2) show ?thesis
    by (simp add: Let_def)
qed

theorem mark_garbage_effect_witness:
  "mark_garbage example_config 4 example_old =
     Inr (example_old\<lparr>entries := Map.empty, gc_pq := [], old_total_blocks := 0,
            old_garbage_blocks := 0, io_log := [Release_extent 0]\<rparr>)"
proof -
  let ?en = "\<lparr>offset = 0, g_array = [True, False], timestamp = 0, state = state_old\<rparr>"
  have e: "entries example_old (extent_index example_config 4) = Some ?en"
    and b: "block_index example_config 4 < length (g_array ?en)"
    and z: "\<not> g_array ?en ! block_index example_config 4"
    by (simp_all add: example_defs)
  obtain s' where r: "mark_garbage example_config 4 example_old = Inr s'"
    using mark_garbage_returns [OF e b z] by (auto simp: example_defs bitset_defs)
  show ?thesis
    using mark_garbage_effect [OF e b z r] r
    by (simp add: example_defs bitset_defs Let_def)
qed

subsection \<open>Shutting down\<close>

text \<open>
  The state \<open>example_leftover\<close> is the one a start-up produces from a metablock that
  names extent 1 as the active extent of slot 1.
\<close>

lemma example_leftover_reached:
  "(case start_reconstruct example_unstarted of Inl e \<Rightarrow> Inl e | Inr s1 \<Rightarrow>
     (case mark_live example_config (example_env 0) 8 s1 of Inl e \<Rightarrow> Inl e | Inr s2 \<Rightarrow>
       (case end_reconstruct s2 of Inl e \<Rightarrow> Inl e | Inr s3 \<Rightarrow>
          start_existing example_config (example_env 0)
            \<lparr>mb_active_extents = (\<lambda>i. None)(1 := Some 8),
             mb_blocks_in_active_extent = (\<lambda>i. 0)(1 := 1)\<rparr> s3)))
   = Inr example_leftover"
  by (simp add: start_reconstruct_def mark_live_def end_reconstruct_def start_existing_def
      start_existing_slot_def new_gc_entry_at_def set_step_def log_io_def
      example_defs example_leftover_def bitset_defs Let_def upt_two
      replicate_two loop_ends)

text \<open>
  Claim C7. \<^verbatim>\<open>actually_shutdown\<close> is to destroy every remaining entry, also one left
  in a slot at or above \<^verbatim>\<open>num_active_data_extents\<close> by a run with more active
  extents. Its loop over the slots stops at \<^verbatim>\<open>num_active_data_extents\<close>: with one
  active extent configured and an active extent left in slot 1, a shutdown leaves the
  entry in the table and in its slot, and changes nothing but the manager's state.
\<close>

theorem shutdown_leaves_high_slot:
  "shutdown example_config 5 example_leftover
     = Inr (True, example_leftover\<lparr>dbm_state := state_shut_down\<rparr>)"
  by (simp add: shutdown_def actually_shutdown_def example_defs example_leftover_def
      Let_def loop_ends)



lemma promotion_frame_refl: "promotion_frame s s"
  by (simp add: promotion_frame_def)

lemma promotion_frame_trans:
  "promotion_frame s s1 \<Longrightarrow> promotion_frame s1 s2 \<Longrightarrow> promotion_frame s s2"
  by (simp add: promotion_frame_def)

lemma deletion_frame_trans:
  "deletion_frame s s1 \<Longrightarrow> deletion_frame s1 s2 \<Longrightarrow> deletion_frame s s2"
  by (simp add: deletion_frame_def)

lemma remove_last_unyoung_entry_frame:
  "remove_last_unyoung_entry cfg s = Inr s' \<Longrightarrow> promotion_frame s s'"
  by (auto simp: remove_last_unyoung_entry_def pq_push_def Let_def promotion_frame_def
      split: list.splits option.splits if_splits)

lemma unyoung_while_too_many_frame:
  "unyoung_while_too_many cfg s = Inr s' \<Longrightarrow> promotion_frame s s'"
proof (induction cfg s rule: unyoung_while_too_many.induct)
  case (1 cfg s)
  show ?case
  proof (cases "length (young_extent_queue s) > GC_YOUNG_EXTENT_MAX_SIZE cfg")
    case True
    with "1.prems" obtain s1 where r: "remove_last_unyoung_entry cfg s = Inr s1"
      and u: "unyoung_while_too_many cfg s1 = Inr s'"
      by (subst (asm) unyoung_while_too_many.simps) (auto split: sum.splits)
    from "1.IH" [OF True r u] remove_last_unyoung_entry_frame [OF r] show ?thesis
      by (rule promotion_frame_trans [rotated])
  next
    case False
    with "1.prems" have "s' = s"
      by (subst (asm) unyoung_while_too_many.simps) simp
    then show ?thesis by (simp add: promotion_frame_refl)
  qed
qed

lemma unyoung_while_too_old_frame:
  "unyoung_while_too_old cfg now s = Inr s' \<Longrightarrow> promotion_frame s s'"
proof (induction cfg now s rule: unyoung_while_too_old.induct)
  case (1 cfg now s)
  show ?case
  proof (cases "young_extent_queue s")
    case Nil
    with "1.prems" have "s' = s"
      by (subst (asm) unyoung_while_too_old.simps) simp
    then show ?thesis by (simp add: promotion_frame_refl)
  next
    case (Cons p rest)
    show ?thesis
    proof (cases "entries s p")
      case None
      with Cons "1.prems" show ?thesis
        by (subst (asm) unyoung_while_too_old.simps) simp
    next
      case (Some en)
      show ?thesis
      proof (cases "now - timestamp en > GC_YOUNG_EXTENT_TIMELIMIT_MICROS cfg")
        case True
        with Cons Some "1.prems" obtain s1 where r: "remove_last_unyoung_entry cfg s = Inr s1"
          and u: "unyoung_while_too_old cfg now s1 = Inr s'"
          by (subst (asm) unyoung_while_too_old.simps) (auto split: sum.splits)
        from "1.IH" [OF Cons Some True r u] remove_last_unyoung_entry_frame [OF r]
        show ?thesis
          by (rule promotion_frame_trans [rotated])
      next
        case False
        with Cons Some "1.prems" have "s' = s"
          by (subst (asm) unyoung_while_too_old.simps) simp
        then show ?thesis by (simp add: promotion_frame_refl)
      qed
    qed
  qed
qed

lemma mark_unyoung_entries_frame:
  "mark_unyoung_entries cfg ev s = Inr s' \<Longrightarrow> promotion_frame s s'"
proof -
  assume a: "mark_unyoung_entries cfg ev s = Inr s'"
  then obtain s1 where m: "unyoung_while_too_many cfg s = Inr s1"
    and o: "unyoung_while_too_old cfg (current_microtime ev s1) s1 = Inr s'"
    by (auto simp: mark_unyoung_entries_def split: sum.splits)
  show ?thesis
    by (rule promotion_frame_trans [OF unyoung_while_too_many_frame [OF m]
          unyoung_while_too_old_frame [OF o]])
qed

lemma delete_entry_frame: "delete_entry p s = Inr s' \<Longrightarrow> deletion_frame s s'"
  by (auto simp: delete_entry_def deletion_frame_def split: option.splits)

lemma delete_active_extents_frame:
  "delete_active_extents cfg slots s = Inr s' \<Longrightarrow> deletion_frame s s'"
proof (induction slots arbitrary: s)
  case Nil
  then show ?case by (simp add: deletion_frame_def)
next
  case (Cons i slots)
  show ?case
  proof (cases "active_extents s i")
    case None
    with Cons show ?thesis by (auto split: if_splits)
  next
    case (Some p)
    with Cons.prems obtain s1 where d: "delete_entry p s = Inr s1"
      and r: "delete_active_extents cfg slots
                (s1\<lparr>active_extents := (active_extents s1)(i := None)\<rparr>) = Inr s'"
      by (auto split: if_splits sum.splits)
    from delete_entry_frame [OF d]
    have "deletion_frame s (s1\<lparr>active_extents := (active_extents s1)(i := None)\<rparr>)"
      by (simp add: deletion_frame_def)
    with Cons.IH [OF r] show ?thesis
      by (rule deletion_frame_trans [rotated])
  qed
qed

lemma delete_young_extents_frame:
  "delete_young_extents s = Inr s' \<Longrightarrow> deletion_frame s s' \<and> young_extent_queue s' = []"
proof (induction s rule: delete_young_extents.induct)
  case (1 s)
  show ?case
  proof (cases "young_extent_queue s")
    case Nil
    with "1.prems" have "s' = s"
      by (subst (asm) delete_young_extents.simps) simp
    with Nil show ?thesis by (simp add: deletion_frame_def)
  next
    case (Cons p rest)
    with "1.prems" obtain s1 where
      d: "delete_entry p (s\<lparr>young_extent_queue := remove1 p (young_extent_queue s)\<rparr>) = Inr s1"
      and r: "delete_young_extents s1 = Inr s'"
      by (subst (asm) delete_young_extents.simps) (auto split: sum.splits)
    from delete_entry_frame [OF d] have "deletion_frame s s1"
      by (simp add: deletion_frame_def)
    from "1.IH" [OF Cons d r] have "deletion_frame s1 s'" "young_extent_queue s' = []"
      by simp_all
    with \<open>deletion_frame s s1\<close> show ?thesis
      by (simp add: deletion_frame_trans [of s s1 s'])
  qed
qed

lemma delete_pq_extents_frame:
  "delete_pq_extents s = Inr s' \<Longrightarrow>
     deletion_frame s s' \<and> gc_pq s' = [] \<and> young_extent_queue s' = young_extent_queue s"
proof (induction s rule: delete_pq_extents.induct)
  case (1 s)
  show ?case
  proof (cases "gc_pq s")
    case Nil
    with "1.prems" have "s' = s"
      by (subst (asm) delete_pq_extents.simps) simp
    with Nil show ?thesis by (simp add: deletion_frame_def)
  next
    case (Cons p rest)
    with "1.prems" obtain s1 where
      d: "delete_entry p (s\<lparr>gc_pq := rest\<rparr>) = Inr s1"
      and r: "delete_pq_extents s1 = Inr s'"
      by (subst (asm) delete_pq_extents.simps) (auto split: sum.splits)
    from delete_entry_frame [OF d] have "deletion_frame s s1"
      by (simp add: deletion_frame_def)
    moreover from d have "young_extent_queue s1 = young_extent_queue s"
      by (auto simp: delete_entry_def split: option.splits)
    moreover from "1.IH" [OF Cons d r] have "deletion_frame s1 s'" "gc_pq s' = []"
      "young_extent_queue s' = young_extent_queue s1"
      by simp_all
    ultimately show ?thesis
      by (simp add: deletion_frame_trans [of s s1 s'])
  qed
qed

lemma actually_shutdown_result:
  assumes "actually_shutdown cfg s = Inr s'"
  shows "dbm_state s = state_shutting_down \<and> dbm_state s' = state_shut_down \<and>
     reconstructed_extents s = [] \<and> young_extent_queue s' = [] \<and> gc_pq s' = [] \<and>
     gc_step s' = gc_step s \<and> gc_disable_callback s' = gc_disable_callback s \<and>
     io_log s' = io_log s @ (case shutdown_callback s of None \<Rightarrow> []
                             | Some cb \<Rightarrow> [On_datablock_manager_shutdown cb])"
proof -
  from assms have st: "dbm_state s = state_shutting_down" and rc: "reconstructed_extents s = []"
    by (auto simp: actually_shutdown_def Let_def split: if_splits)
  with assms obtain s2 s3 s4 where
    a: "delete_active_extents cfg [0 ..< num_active_data_extents cfg]
          (s\<lparr>dbm_state := state_shut_down\<rparr>) = Inr s2"
    and y: "delete_young_extents s2 = Inr s3"
    and q: "delete_pq_extents s3 = Inr s4"
    and f: "s' = (case shutdown_callback s4 of None \<Rightarrow> s4
                  | Some cb \<Rightarrow> log_io (On_datablock_manager_shutdown cb) s4)"
    by (auto simp: actually_shutdown_def Let_def split: if_splits sum.splits option.splits)
  from delete_young_extents_frame [OF y] delete_pq_extents_frame [OF q]
  have "deletion_frame s2 s3" "deletion_frame s3 s4" "young_extent_queue s4 = []"
    "gc_pq s4 = []"
    by simp_all
  with delete_active_extents_frame [OF a]
  have fr: "deletion_frame (s\<lparr>dbm_state := state_shut_down\<rparr>) s4"
    by (blast intro: deletion_frame_trans)
  show ?thesis
  proof (cases "shutdown_callback s4")
    case None
    with f fr st rc \<open>young_extent_queue s4 = []\<close> \<open>gc_pq s4 = []\<close> show ?thesis
      by (simp add: deletion_frame_def)
  next
    case (Some cb)
    with fr have "shutdown_callback s = Some cb"
      by (simp add: deletion_frame_def)
    with Some f fr st rc \<open>young_extent_queue s4 = []\<close> \<open>gc_pq s4 = []\<close> show ?thesis
      by (simp add: deletion_frame_def log_io_def)
  qed
qed


lemma set_step_fields:
  "dbm_state (set_step st s) = dbm_state s" "gc_step (set_step st s) = st"
  "shutdown_callback (set_step st s) = shutdown_callback s"
  "current_entry (set_step st s) = current_entry s" "refcount (set_step st s) = refcount s"
  "reconstructed_extents (set_step st s) = reconstructed_extents s"
  "entries (set_step st s) = entries s"
  "old_total_blocks (set_step st s) = old_total_blocks s"
  "old_garbage_blocks (set_step st s) = old_garbage_blocks s"
  by (simp_all add: set_step_def log_io_def split: option.splits)







subsection \<open>Disabling the GC\<close>





subsection \<open>The batch of GC rewrites\<close>

lemma collect_gc_writes_eq:
  "collect_gc_writes cfg en blocks slots ws = Inr ws' \<Longrightarrow>
     ws' = ws @ map (\<lambda>i. \<lparr>gw_block_id = block_id (blocks (i * block_size cfg)),
                          gw_buf = i * block_size cfg + sizeof_buf_data_t cfg\<rparr>)
                 (filter (\<lambda>i. \<not> g_array en ! i) slots)"
proof (induction slots arbitrary: ws)
  case Nil
  then show ?case by simp
next
  case (Cons i slots)
  from Cons.prems have lt: "i < length (g_array en)"
    by (auto simp: bitset_get_def split: if_splits)
  show ?case
  proof (cases "g_array en ! i")
    case True
    with Cons.prems lt have "collect_gc_writes cfg en blocks slots ws = Inr ws'"
      by (simp add: bitset_get_def)
    from Cons.IH [OF this] True show ?thesis by simp
  next
    case False
    with Cons.prems lt have "collect_gc_writes cfg en blocks slots
        (ws @ [\<lparr>gw_block_id = block_id (blocks (i * block_size cfg)),
                gw_buf = i * block_size cfg + sizeof_buf_data_t cfg\<rparr>]) = Inr ws'"
      by (simp add: bitset_get_def Let_def split: if_splits)
    from Cons.IH [OF this] False show ?thesis by simp
  qed
qed

lemma collect_gc_writes_returns:
  assumes "\<forall>i \<in> set slots. i < length (g_array en)"
    "\<forall>i \<in> set slots. \<not> g_array en ! i \<longrightarrow>
       block_id (blocks (i * block_size cfg)) \<noteq> NULL_BLOCK_ID cfg"
  shows "\<exists>ws'. collect_gc_writes cfg en blocks slots ws = Inr ws'"
  using assms
proof (induction slots arbitrary: ws)
  case Nil
  then show ?case by simp
next
  case (Cons i slots)
  then show ?case
    by (cases "g_array en ! i") (simp_all add: bitset_get_def Let_def)
qed

lemma length_filter_clear_bits:
  "length (filter (\<lambda>i. \<not> g ! i) [0 ..< length g]) + bitset_count g = length g"
proof -
  have "length (filter (\<lambda>i. \<not> g ! i) [0 ..< length g])
      = length (filter (\<lambda>b. \<not> b) (map (\<lambda>i. g ! i) [0 ..< length g]))"
    by (simp add: filter_map comp_def)
  also have "\<dots> = length (filter (\<lambda>b. \<not> b) g)"
    by (simp add: map_nth)
  finally show ?thesis
    using sum_length_filter_compl [of "\<lambda>b. b" g] by (simp add: bitset_count_def)
qed

lemma gc_read_lock_available_case_unfold:
  assumes "current_entry s = Some p" and "entries s p = Some en"
  shows "gc_read_lock_available_case cfg ev s =
     (case collect_gc_writes cfg en (gc_blocks s) [0 ..< blocks_per_extent cfg] [] of
        Inl e \<Rightarrow> Inl e
      | Inr ws \<Rightarrow>
          if int (length ws) \<noteq> int (blocks_per_extent cfg) - int (bitset_count (g_array en))
          then Inl Assertion_failed
          else Inr (write_gcs ev ws (choose_gc_io_account cfg ev (set_step gc_write s))
                 (log_io (Write_gcs ws (choose_gc_io_account cfg ev (set_step gc_write s)))
                    (set_step gc_write s))))"
  using assms by (simp add: gc_read_lock_available_case_def Let_def split: sum.splits)

text \<open>
  Claim C3. In the step \<^verbatim>\<open>gc_read_lock_available\<close> with a current entry, the batch
  handed to \<^verbatim>\<open>write_gcs\<close> holds exactly the slots of the victim whose garbage bit is
  0 in the state in which the step runs, in the order of the slots, each with the block
  id found in the header of the block in the scratch buffer and with the payload that
  starts after that header. The step returns (its assertions hold) when the bitmap has
  its length and no such header holds the null block id.
\<close>

theorem gc_rewrite_batch:
  assumes "current_entry s = Some p" and "entries s p = Some en"
  shows
    "let batch = map (\<lambda>i. \<lparr>gw_block_id = block_id (gc_blocks s (i * block_size cfg)),
                           gw_buf = i * block_size cfg + sizeof_buf_data_t cfg\<rparr>)
                   (filter (\<lambda>i. \<not> g_array en ! i) [0 ..< blocks_per_extent cfg]);
         s1 = set_step gc_write s;
         acct = choose_gc_io_account cfg ev s1
     in (\<forall>r. gc_read_lock_available_case cfg ev s = Inr r \<longrightarrow>
           r = write_gcs ev batch acct (log_io (Write_gcs batch acct) s1)) \<and>
        (length (g_array en) = blocks_per_extent cfg \<and>
         (\<forall>i < blocks_per_extent cfg. \<not> g_array en ! i \<longrightarrow>
            block_id (gc_blocks s (i * block_size cfg)) \<noteq> NULL_BLOCK_ID cfg) \<longrightarrow>
           gc_read_lock_available_case cfg ev s
             = Inr (write_gcs ev batch acct (log_io (Write_gcs batch acct) s1)))"
proof -
  let ?batch = "map (\<lambda>i. \<lparr>gw_block_id = block_id (gc_blocks s (i * block_size cfg)),
                           gw_buf = i * block_size cfg + sizeof_buf_data_t cfg\<rparr>)
                   (filter (\<lambda>i. \<not> g_array en ! i) [0 ..< blocks_per_extent cfg])"
  let ?res = "write_gcs ev ?batch (choose_gc_io_account cfg ev (set_step gc_write s))
      (log_io (Write_gcs ?batch (choose_gc_io_account cfg ev (set_step gc_write s)))
         (set_step gc_write s))"
  note u = gc_read_lock_available_case_unfold [OF assms, of cfg ev]
  have part: "r = ?res" if r: "gc_read_lock_available_case cfg ev s = Inr r" for r
  proof (cases "collect_gc_writes cfg en (gc_blocks s) [0 ..< blocks_per_extent cfg] []")
    case (Inl e)
    with r u show ?thesis by simp
  next
    case (Inr ws)
    from collect_gc_writes_eq [OF Inr] have ws: "ws = ?batch" by simp
    from r show ?thesis
      unfolding u Inr ws by (simp split: if_splits)
  qed
  have total: "gc_read_lock_available_case cfg ev s = Inr ?res"
    if len: "length (g_array en) = blocks_per_extent cfg"
      and ids: "\<forall>i < blocks_per_extent cfg. \<not> g_array en ! i \<longrightarrow>
            block_id (gc_blocks s (i * block_size cfg)) \<noteq> NULL_BLOCK_ID cfg"
  proof -
    have "\<exists>ws. collect_gc_writes cfg en (gc_blocks s) [0 ..< blocks_per_extent cfg] [] = Inr ws"
      by (rule collect_gc_writes_returns) (use len ids in simp_all)
    then obtain ws where
      c: "collect_gc_writes cfg en (gc_blocks s) [0 ..< blocks_per_extent cfg] [] = Inr ws"
      by blast
    from collect_gc_writes_eq [OF c] have ws: "ws = ?batch" by simp
    from length_filter_clear_bits [of "g_array en"] len
    have "int (length (filter (\<lambda>i. \<not> g_array en ! i) [0 ..< blocks_per_extent cfg]))
        = int (blocks_per_extent cfg) - int (bitset_count (g_array en))"
      by simp
    then have l: "int (length ?batch)
        = int (blocks_per_extent cfg) - int (bitset_count (g_array en))"
      by simp
    show ?thesis
      unfolding u c [unfolded ws] using l by simp
  qed
  show ?thesis
    unfolding Let_def using part total by blast
qed

text \<open>
  The bits are read when the step runs: extent 0 has two live blocks when the GC picks
  it and reads both; the block at offset 8 is marked garbage before the reads complete;
  the state reached is \<open>example_read_done\<close>, whose batch holds the block of slot 3 alone.
\<close>

lemma example_read_done_reached:
  "(case start_gc example_config4 (example_env 0) example_victim of
      Inl e \<Rightarrow> Inl e
    | Inr s1 \<Rightarrow>
        (case on_lock_available example_config4 (example_env 0) s1 of
           Inl e \<Rightarrow> Inl e
         | Inr s2 \<Rightarrow>
             (case mark_garbage example_config4 8 s2 of
                Inl e \<Rightarrow> Inl e
              | Inr s3 \<Rightarrow>
                  (case run_gc example_config4 (example_env 0) s3 of
                     Inl e \<Rightarrow> Inl e
                   | Inr s4 \<Rightarrow> run_gc example_config4 (example_env 0) s4))))
   = Inr example_read_done"
  by (simp add: start_gc_def on_lock_available_def run_gc_steps gc_ready_case_def
      gc_ready_lock_available_case_def gc_read_case_def should_we_keep_gcing_def
      garbage_ratio_def choose_gc_io_account_def set_step_def log_io_def mark_garbage_def
      example4_defs example_defs bitset_defs Let_def upt_four)

theorem gc_rewrite_batch_witness:
  "gc_read_lock_available_case example_config4 (example_env 0) example_read_done
     = Inr (False, example_read_done\<lparr>gc_step := gc_write,
         io_log := io_log example_read_done
           @ [Write_gcs [\<lparr>gw_block_id = 13, gw_buf = 28\<rparr>] Gc_io_account_nice]\<rparr>)"
proof -
  let ?en = "\<lparr>offset = 0, g_array = [True, True, True, False], timestamp = 0,
               state = state_in_gc\<rparr>"
  have c: "current_entry example_read_done = Some 0"
    and e: "entries example_read_done 0 = Some ?en"
    by (simp_all add: example4_defs example_defs)
  have ok: "length (g_array ?en) = blocks_per_extent example_config4 \<and>
     (\<forall>i < blocks_per_extent example_config4. \<not> g_array ?en ! i \<longrightarrow>
        block_id (gc_blocks example_read_done (i * block_size example_config4))
          \<noteq> NULL_BLOCK_ID example_config4)"
    by (simp add: example4_defs example_defs)
  from gc_rewrite_batch [OF c e, of example_config4 "example_env 0", unfolded Let_def,
      THEN conjunct2, rule_format, OF ok]
  show ?thesis
    by (simp add: example4_defs example_defs upt_four choose_gc_io_account_def
        garbage_ratio_def set_step_def log_io_def)
qed

subsection \<open>The young promotion\<close>

lemma remove_last_unyoung_entry_effect:
  assumes "remove_last_unyoung_entry cfg s = Inr s'"
  shows "\<exists>p rest en. young_extent_queue s = p # rest \<and> entries s p = Some en \<and>
     state en = state_young \<and>
     s' = s\<lparr>young_extent_queue := rest,
            entries := (entries s)(p \<mapsto> en\<lparr>state := state_old\<rparr>),
            gc_pq := pq_insert (entry_count ((entries s)(p \<mapsto> en\<lparr>state := state_old\<rparr>))) p
                       (gc_pq s),
            old_total_blocks := old_total_blocks s + int (blocks_per_extent cfg),
            old_garbage_blocks := old_garbage_blocks s + int (bitset_count (g_array en))\<rparr>"
  using assms
  by (auto simp: remove_last_unyoung_entry_def pq_push_def Let_def
      split: list.splits option.splits if_splits)

lemma remove_last_unyoung_entry_queue:
  "remove_last_unyoung_entry cfg s = Inr s' \<Longrightarrow>
     young_extent_queue s' = tl (young_extent_queue s) \<and> young_extent_queue s \<noteq> []"
  by (auto dest!: remove_last_unyoung_entry_effect)

lemma promote_young_spec_few:
  "length (young_extent_queue s) \<le> GC_YOUNG_EXTENT_MAX_SIZE cfg \<Longrightarrow>
     promote_young_spec cfg now s = unyoung_while_too_old cfg now s"
proof (induction cfg now s rule: unyoung_while_too_old.induct)
  case (1 cfg now s)
  show ?case
  proof (cases "young_extent_queue s")
    case Nil
    with "1.prems" show ?thesis
      by (subst promote_young_spec.simps, subst unyoung_while_too_old.simps) simp
  next
    case (Cons p rest)
    show ?thesis
    proof (cases "entries s p")
      case None
      with Cons "1.prems" show ?thesis
        by (subst promote_young_spec.simps, subst unyoung_while_too_old.simps) simp
    next
      case (Some en)
      show ?thesis
      proof (cases "now - timestamp en > GC_YOUNG_EXTENT_TIMELIMIT_MICROS cfg")
        case False
        with Cons Some "1.prems" show ?thesis
          by (subst promote_young_spec.simps, subst unyoung_while_too_old.simps) simp
      next
        case True
        show ?thesis
        proof (cases "remove_last_unyoung_entry cfg s")
          case (Inl e)
          with Cons Some True "1.prems" show ?thesis
            by (subst promote_young_spec.simps, subst unyoung_while_too_old.simps) simp
        next
          case (Inr s1)
          from remove_last_unyoung_entry_queue [OF Inr] "1.prems"
          have "length (young_extent_queue s1) \<le> GC_YOUNG_EXTENT_MAX_SIZE cfg"
            by simp
          from "1.IH" [OF Cons Some True Inr this] Cons Some True Inr "1.prems"
          show ?thesis
            by (subst promote_young_spec.simps, subst unyoung_while_too_old.simps) simp
        qed
      qed
    qed
  qed
qed

lemma promote_young_spec_two_loops:
  "promote_young_spec cfg now s =
     (case unyoung_while_too_many cfg s of
        Inl e \<Rightarrow> Inl e
      | Inr s1 \<Rightarrow> unyoung_while_too_old cfg now s1)"
proof (induction cfg s rule: unyoung_while_too_many.induct)
  case (1 cfg s)
  show ?case
  proof (cases "length (young_extent_queue s) > GC_YOUNG_EXTENT_MAX_SIZE cfg")
    case False
    then have "promote_young_spec cfg now s = unyoung_while_too_old cfg now s"
      by (intro promote_young_spec_few) simp
    with False show ?thesis
      by (simp add: unyoung_while_too_many_done)
  next
    case True
    show ?thesis
    proof (cases "remove_last_unyoung_entry cfg s")
      case (Inl e)
      with True show ?thesis
        by (subst promote_young_spec.simps, subst unyoung_while_too_many.simps) simp
    next
      case (Inr s1)
      from "1.IH" [OF True Inr] True Inr show ?thesis
        by (subst promote_young_spec.simps, subst unyoung_while_too_many.simps) simp
    qed
  qed
qed

lemma mark_unyoung_entries_is_spec:
  assumes "\<forall>t. current_microtime ev t = now"
  shows "mark_unyoung_entries cfg ev s = promote_young_spec cfg now s"
  using assms
  by (simp add: mark_unyoung_entries_def promote_young_spec_two_loops split: sum.splits)

lemma gimme_stages:
  assumes "gimme_a_new_offset cfg ev s = Inr (off, s')"
  obtains s1 s2 s3 n' where "next_active_extent s < MAX_ACTIVE_DATA_EXTENTS cfg"
    "start_new_extent_if_necessary cfg ev s = Inr s1"
    "put_block_into_extent cfg s1 = Inr (off, s2)"
    "deactivate_extent_if_necessary cfg ev s2 = Inr s3"
    "move_along_to_next_extent cfg (active_extents s3) (next_active_extent s3) = Some n'"
    "s' = s3\<lparr>next_active_extent := n'\<rparr>"
  using assms
  by (auto simp: gimme_a_new_offset_def split: if_splits sum.splits option.splits)

lemma start_new_extent_effect:
  assumes "start_new_extent_if_necessary cfg ev s = Inr s1"
  shows "case active_extents s (next_active_extent s) of
      Some p \<Rightarrow> s1 = s
    | None \<Rightarrow>
        entries s (gen_extent ev s div extent_size cfg) = None \<and>
        s1 = s\<lparr>entries := (entries s)(gen_extent ev s div extent_size cfg \<mapsto>
                  \<lparr>offset = gen_extent ev s, g_array = replicate (blocks_per_extent cfg) True,
                   timestamp = current_microtime ev s, state = state_active\<rparr>),
               active_extents := (active_extents s)
                 (next_active_extent s := Some (gen_extent ev s div extent_size cfg)),
               blocks_in_active_extent := (blocks_in_active_extent s)
                 (next_active_extent s := 0)\<rparr>"
  using assms
  by (auto simp: start_new_extent_if_necessary_def new_gc_entry_def Let_def
      split: option.splits if_splits)

lemma put_block_effect:
  assumes "put_block_into_extent cfg s = Inr (off, s2)"
  shows "\<exists>p en. active_extents s (next_active_extent s) = Some p \<and> entries s p = Some en \<and>
     state en = state_active \<and>
     blocks_in_active_extent s (next_active_extent s) < blocks_per_extent cfg \<and>
     blocks_in_active_extent s (next_active_extent s) < length (g_array en) \<and>
     g_array en ! blocks_in_active_extent s (next_active_extent s) \<and>
     off = offset en + blocks_in_active_extent s (next_active_extent s) * block_size cfg \<and>
     s2 = s\<lparr>entries := (entries s)(p \<mapsto> en\<lparr>g_array :=
                 (g_array en)[blocks_in_active_extent s (next_active_extent s) := False]\<rparr>),
            blocks_in_active_extent := (blocks_in_active_extent s)
              (next_active_extent s := blocks_in_active_extent s (next_active_extent s) + 1)\<rparr>"
  using assms
  by (auto simp: put_block_into_extent_def Let_def bitset_get_def bitset_set_def
      split: option.splits if_splits)

lemma deactivate_extent_effect:
  assumes "deactivate_extent_if_necessary cfg ev s = Inr s3"
  shows "if blocks_in_active_extent s (next_active_extent s) = blocks_per_extent cfg
     then \<exists>p en s2. active_extents s (next_active_extent s) = Some p \<and>
            entries s p = Some en \<and>
            mark_unyoung_entries cfg ev
              (s\<lparr>entries := (entries s)(p \<mapsto> en\<lparr>state := state_young\<rparr>),
                 young_extent_queue := young_extent_queue s @ [p]\<rparr>) = Inr s2 \<and>
            s3 = s2\<lparr>active_extents := (active_extents s2)(next_active_extent s := None)\<rparr>
     else s3 = s"
  using assms
  by (auto simp: deactivate_extent_if_necessary_def Let_def
      split: option.splits if_splits sum.splits)

lemma gimme_without_filling:
  assumes "gimme_a_new_offset cfg ev s = Inr (off, s')"
    and "blocks_in_active_extent s' (next_active_extent s) \<noteq> blocks_per_extent cfg"
  shows "young_extent_queue s' = young_extent_queue s \<and> gc_pq s' = gc_pq s \<and>
     old_total_blocks s' = old_total_blocks s \<and> old_garbage_blocks s' = old_garbage_blocks s"
proof -
  from assms(1) obtain s1 s2 s3 n' where
    a: "start_new_extent_if_necessary cfg ev s = Inr s1"
    and b: "put_block_into_extent cfg s1 = Inr (off, s2)"
    and c: "deactivate_extent_if_necessary cfg ev s2 = Inr s3"
    and d: "s' = s3\<lparr>next_active_extent := n'\<rparr>"
    by (rule gimme_stages)
  from start_new_extent_effect [OF a]
  have 1: "young_extent_queue s1 = young_extent_queue s \<and> gc_pq s1 = gc_pq s \<and>
     old_total_blocks s1 = old_total_blocks s \<and> old_garbage_blocks s1 = old_garbage_blocks s \<and>
     next_active_extent s1 = next_active_extent s"
    by (auto split: option.splits)
  from put_block_effect [OF b]
  have 2: "young_extent_queue s2 = young_extent_queue s1 \<and> gc_pq s2 = gc_pq s1 \<and>
     old_total_blocks s2 = old_total_blocks s1 \<and> old_garbage_blocks s2 = old_garbage_blocks s1 \<and>
     next_active_extent s2 = next_active_extent s1"
    by auto
  have 3: "s3 = s2"
  proof (rule ccontr)
    assume "s3 \<noteq> s2"
    with deactivate_extent_effect [OF c] obtain p en t where
      f: "blocks_in_active_extent s2 (next_active_extent s2) = blocks_per_extent cfg"
      and m: "mark_unyoung_entries cfg ev
              (s2\<lparr>entries := (entries s2)(p \<mapsto> en\<lparr>state := state_young\<rparr>),
                  young_extent_queue := young_extent_queue s2 @ [p]\<rparr>) = Inr t"
      and e: "s3 = t\<lparr>active_extents := (active_extents t)(next_active_extent s2 := None)\<rparr>"
      by (auto split: if_splits)
    from mark_unyoung_entries_frame [OF m] e
    have "blocks_in_active_extent s3 = blocks_in_active_extent s2"
      by (simp add: promotion_frame_def)
    with f d 1 2 assms(2) show False by simp
  qed
  from 1 2 3 d show ?thesis by simp
qed

lemma gimme_with_filling:
  assumes "gimme_a_new_offset cfg ev s = Inr (off, s')"
    and "blocks_in_active_extent s' (next_active_extent s) = blocks_per_extent cfg"
  shows "\<exists>p en t t'. entries t p = Some en \<and> state en = state_young \<and>
     young_extent_queue t = young_extent_queue s @ [p] \<and> gc_pq t = gc_pq s \<and>
     old_total_blocks t = old_total_blocks s \<and> old_garbage_blocks t = old_garbage_blocks s \<and>
     mark_unyoung_entries cfg ev t = Inr t' \<and>
     young_extent_queue s' = young_extent_queue t' \<and> gc_pq s' = gc_pq t' \<and>
     entries s' = entries t' \<and>
     old_total_blocks s' = old_total_blocks t' \<and> old_garbage_blocks s' = old_garbage_blocks t'"
proof -
  from assms(1) obtain s1 s2 s3 n' where
    a: "start_new_extent_if_necessary cfg ev s = Inr s1"
    and b: "put_block_into_extent cfg s1 = Inr (off, s2)"
    and c: "deactivate_extent_if_necessary cfg ev s2 = Inr s3"
    and d: "s' = s3\<lparr>next_active_extent := n'\<rparr>"
    by (rule gimme_stages)
  from start_new_extent_effect [OF a]
  have 1: "young_extent_queue s1 = young_extent_queue s \<and> gc_pq s1 = gc_pq s \<and>
     old_total_blocks s1 = old_total_blocks s \<and> old_garbage_blocks s1 = old_garbage_blocks s \<and>
     next_active_extent s1 = next_active_extent s"
    by (auto split: option.splits)
  from put_block_effect [OF b]
  have 2: "young_extent_queue s2 = young_extent_queue s1 \<and> gc_pq s2 = gc_pq s1 \<and>
     old_total_blocks s2 = old_total_blocks s1 \<and> old_garbage_blocks s2 = old_garbage_blocks s1 \<and>
     next_active_extent s2 = next_active_extent s1"
    by auto
  have f: "blocks_in_active_extent s2 (next_active_extent s2) = blocks_per_extent cfg"
  proof (rule ccontr)
    assume n: "\<not> ?thesis"
    with deactivate_extent_effect [OF c] have "s3 = s2" by simp
    with d n 1 2 assms(2) show False by simp
  qed
  with deactivate_extent_effect [OF c] obtain p en t' where
    e: "entries s2 p = Some en"
    and m: "mark_unyoung_entries cfg ev
              (s2\<lparr>entries := (entries s2)(p \<mapsto> en\<lparr>state := state_young\<rparr>),
                  young_extent_queue := young_extent_queue s2 @ [p]\<rparr>) = Inr t'"
    and s3: "s3 = t'\<lparr>active_extents := (active_extents t')(next_active_extent s2 := None)\<rparr>"
    by auto
  let ?t = "s2\<lparr>entries := (entries s2)(p \<mapsto> en\<lparr>state := state_young\<rparr>),
                  young_extent_queue := young_extent_queue s2 @ [p]\<rparr>"
  have "entries ?t p = Some (en\<lparr>state := state_young\<rparr>)" "state (en\<lparr>state := state_young\<rparr>) = state_young"
    "young_extent_queue ?t = young_extent_queue s @ [p]" "gc_pq ?t = gc_pq s"
    "old_total_blocks ?t = old_total_blocks s" "old_garbage_blocks ?t = old_garbage_blocks s"
    using 1 2 by simp_all
  moreover have "young_extent_queue s' = young_extent_queue t'" "gc_pq s' = gc_pq t'"
    "entries s' = entries t'"
    "old_total_blocks s' = old_total_blocks t'" "old_garbage_blocks s' = old_garbage_blocks t'"
    using d s3 by simp_all
  ultimately show ?thesis
    using m by blast
qed

lemma gc_write_case_promotes:
  assumes "gc_write_case cfg ev s = Inr r"
  shows "\<exists>s1. mark_unyoung_entries cfg ev s = Inr s1 \<and>
     (dbm_state s \<noteq> state_shutting_down \<longrightarrow> r = (True, set_step gc_ready s1))"
proof -
  from assms obtain s1 where m: "mark_unyoung_entries cfg ev s = Inr s1"
    by (auto simp: gc_write_case_def split: sum.splits)
  from mark_unyoung_entries_frame [OF m] have "dbm_state s1 = dbm_state s"
    by (simp add: promotion_frame_def)
  with assms m show ?thesis
    by (auto simp: gc_write_case_def Let_def set_step_fields split: if_splits sum.splits)
qed

text \<open>
  Claim C5 as stated fails: the young promotion does not run after every allocation.
  Two allocations at time 0 fill extent 0, which becomes young; with the clock past the
  time limit, one more allocation opens extent 1, does not fill it, and leaves extent 0
  at the head of the young queue and the priority queue empty.
\<close>

theorem promotion_not_after_every_allocation:
  "(\<exists>s1. gimme_a_new_offset example_config (example_env 0) example_ready = Inr (0, s1) \<and>
         gimme_a_new_offset example_config (example_env 0) s1 = Inr (4, example_filled)) \<and>
   entries example_filled 0
     = Some \<lparr>offset = 0, g_array = [False, False], timestamp = 0, state = state_young\<rparr> \<and>
   young_extent_queue example_filled = [0] \<and>
   (50001 :: 64 word) - 0 > GC_YOUNG_EXTENT_TIMELIMIT_MICROS example_config \<and>
   (\<exists>s3. gimme_a_new_offset example_config (example_env 50001) example_filled = Inr (8, s3) \<and>
         entries s3 0
           = Some \<lparr>offset = 0, g_array = [False, False], timestamp = 0, state = state_young\<rparr> \<and>
         young_extent_queue s3 = [0] \<and> gc_pq s3 = [])"
proof (intro conjI)
  show "\<exists>s1. gimme_a_new_offset example_config (example_env 0) example_ready
        = Inr (0, s1) \<and>
      gimme_a_new_offset example_config (example_env 0) s1 = Inr (4, example_filled)"
    using example_first_allocation example_second_allocation by simp
  show "\<exists>s3. gimme_a_new_offset example_config (example_env 50001) example_filled = Inr (8, s3) \<and>
         entries s3 0
           = Some \<lparr>offset = 0, g_array = [False, False], timestamp = 0, state = state_young\<rparr> \<and>
         young_extent_queue s3 = [0] \<and> gc_pq s3 = []"
    by (simp add: gimme_defs example_defs example_filled_def bitset_defs Let_def replicate_two
        move_along_example)
qed (simp_all add: example_defs example_filled_def)

text \<open>
  Claim C5, amended. \<^verbatim>\<open>mark_unyoung_entries\<close> does what the specification's one
  loop does: while the young queue holds more than \<^verbatim>\<open>GC_YOUNG_EXTENT_MAX_SIZE\<close>
  entries or its head is older than \<^verbatim>\<open>GC_YOUNG_EXTENT_TIMELIMIT_MICROS\<close>, the head is
  popped, made old, pushed into the priority queue and added to both statistics. It
  runs at the start of the case \<^verbatim>\<open>gc_write\<close>, and in an allocation exactly when the
  allocation has filled its extent, on the queue that the filled extent has joined; an
  allocation that does not fill its extent leaves the queues and the statistics alone.
\<close>

theorem young_promotion:
  assumes "\<forall>t. current_microtime ev t = now"
  shows
    "mark_unyoung_entries cfg ev s = promote_young_spec cfg now s \<and>
     (\<forall>s'. remove_last_unyoung_entry cfg s = Inr s' \<longrightarrow>
        (\<exists>p rest en. young_extent_queue s = p # rest \<and> entries s p = Some en \<and>
           state en = state_young \<and>
           s' = s\<lparr>young_extent_queue := rest,
                  entries := (entries s)(p \<mapsto> en\<lparr>state := state_old\<rparr>),
                  gc_pq := pq_insert (entry_count ((entries s)(p \<mapsto> en\<lparr>state := state_old\<rparr>)))
                             p (gc_pq s),
                  old_total_blocks := old_total_blocks s + int (blocks_per_extent cfg),
                  old_garbage_blocks :=
                    old_garbage_blocks s + int (bitset_count (g_array en))\<rparr>)) \<and>
     (\<forall>off s'. gimme_a_new_offset cfg ev s = Inr (off, s') \<longrightarrow>
        (if blocks_in_active_extent s' (next_active_extent s) = blocks_per_extent cfg
         then \<exists>p en t t'. entries t p = Some en \<and> state en = state_young \<and>
                young_extent_queue t = young_extent_queue s @ [p] \<and> gc_pq t = gc_pq s \<and>
                old_total_blocks t = old_total_blocks s \<and>
                old_garbage_blocks t = old_garbage_blocks s \<and>
                mark_unyoung_entries cfg ev t = Inr t' \<and>
                young_extent_queue s' = young_extent_queue t' \<and> gc_pq s' = gc_pq t' \<and>
                entries s' = entries t' \<and> old_total_blocks s' = old_total_blocks t' \<and>
                old_garbage_blocks s' = old_garbage_blocks t'
         else young_extent_queue s' = young_extent_queue s \<and> gc_pq s' = gc_pq s \<and>
                old_total_blocks s' = old_total_blocks s \<and>
                old_garbage_blocks s' = old_garbage_blocks s)) \<and>
     (\<forall>r. gc_write_case cfg ev s = Inr r \<longrightarrow>
        (\<exists>s1. mark_unyoung_entries cfg ev s = Inr s1 \<and>
           (dbm_state s \<noteq> state_shutting_down \<longrightarrow> r = (True, set_step gc_ready s1))))"
proof (intro conjI allI impI)
  show "mark_unyoung_entries cfg ev s = promote_young_spec cfg now s"
    using assms by (rule mark_unyoung_entries_is_spec)
next
  fix s' assume "remove_last_unyoung_entry cfg s = Inr s'"
  then show "\<exists>p rest en. young_extent_queue s = p # rest \<and> entries s p = Some en \<and>
           state en = state_young \<and>
           s' = s\<lparr>young_extent_queue := rest,
                  entries := (entries s)(p \<mapsto> en\<lparr>state := state_old\<rparr>),
                  gc_pq := pq_insert (entry_count ((entries s)(p \<mapsto> en\<lparr>state := state_old\<rparr>)))
                             p (gc_pq s),
                  old_total_blocks := old_total_blocks s + int (blocks_per_extent cfg),
                  old_garbage_blocks :=
                    old_garbage_blocks s + int (bitset_count (g_array en))\<rparr>"
    by (rule remove_last_unyoung_entry_effect)
next
  fix off s' assume g: "gimme_a_new_offset cfg ev s = Inr (off, s')"
  show "if blocks_in_active_extent s' (next_active_extent s) = blocks_per_extent cfg
         then \<exists>p en t t'. entries t p = Some en \<and> state en = state_young \<and>
                young_extent_queue t = young_extent_queue s @ [p] \<and> gc_pq t = gc_pq s \<and>
                old_total_blocks t = old_total_blocks s \<and>
                old_garbage_blocks t = old_garbage_blocks s \<and>
                mark_unyoung_entries cfg ev t = Inr t' \<and>
                young_extent_queue s' = young_extent_queue t' \<and> gc_pq s' = gc_pq t' \<and>
                entries s' = entries t' \<and> old_total_blocks s' = old_total_blocks t' \<and>
                old_garbage_blocks s' = old_garbage_blocks t'
         else young_extent_queue s' = young_extent_queue s \<and> gc_pq s' = gc_pq s \<and>
                old_total_blocks s' = old_total_blocks s \<and>
                old_garbage_blocks s' = old_garbage_blocks s"
  proof (cases "blocks_in_active_extent s' (next_active_extent s) = blocks_per_extent cfg")
    case True
    with gimme_with_filling [OF g True] show ?thesis by simp
  next
    case False
    with gimme_without_filling [OF g False] show ?thesis by simp
  qed
next
  fix r assume "gc_write_case cfg ev s = Inr r"
  then show "\<exists>s1. mark_unyoung_entries cfg ev s = Inr s1 \<and>
           (dbm_state s \<noteq> state_shutting_down \<longrightarrow> r = (True, set_step gc_ready s1))"
    by (rule gc_write_case_promotes)
qed

lemma promote_young_spec_example:
  "promote_young_spec example_config 50001 example_filled
     = Inr (example_filled\<lparr>young_extent_queue := [],
         entries := [0 \<mapsto> \<lparr>offset = 0, g_array = [False, False], timestamp = 0,
                            state = state_old\<rparr>],
         gc_pq := [0], old_total_blocks := 2, old_garbage_blocks := 0\<rparr>)"
  by (simp add: example_defs example_filled_def bitset_defs remove_last_unyoung_entry_def
      pq_push_def entry_count_def Let_def promote_young_spec_Nil promote_young_spec_Cons)

theorem young_promotion_witness:
  "mark_unyoung_entries example_config (example_env 50001) example_filled
     = Inr (example_filled\<lparr>young_extent_queue := [],
         entries := [0 \<mapsto> \<lparr>offset = 0, g_array = [False, False], timestamp = 0,
                            state = state_old\<rparr>],
         gc_pq := [0], old_total_blocks := 2, old_garbage_blocks := 0\<rparr>)"
proof -
  have "\<forall>t. current_microtime (example_env 50001) t = 50001"
    by (simp add: example_env_def)
  from young_promotion [OF this, of example_config example_filled, THEN conjunct1]
  show ?thesis
    by (simp add: promote_young_spec_example)
qed

subsection \<open>The statistics of the old extents\<close>

lemma weight_sum_update:
  fixes w :: "'v option \<Rightarrow> int"
  assumes fin: "finite (dom m)" and w0: "w None = 0"
  shows "(\<Sum>q \<in> dom (m(p := v)). w ((m(p := v)) q)) + w (m p)
           = (\<Sum>q \<in> dom m. w (m q)) + w v"
proof -
  let ?D = "dom m - {p}"
  have finD: "finite ?D" using fin by simp
  have rest: "(\<Sum>q \<in> ?D. w ((m(p := v)) q)) = (\<Sum>q \<in> ?D. w (m q))"
    by (rule sum.cong) simp_all
  have old: "(\<Sum>q \<in> dom m. w (m q)) = (\<Sum>q \<in> ?D. w (m q)) + w (m p)"
  proof (cases "p \<in> dom m")
    case True
    with fin have "(\<Sum>q \<in> dom m. w (m q)) = w (m p) + (\<Sum>q \<in> ?D. w (m q))"
      by (rule sum.remove)
    then show ?thesis by simp
  next
    case False
    then have "m p = None" "?D = dom m" by auto
    with w0 show ?thesis by simp
  qed
  have new: "(\<Sum>q \<in> dom (m(p := v)). w ((m(p := v)) q)) = (\<Sum>q \<in> ?D. w (m q)) + w v"
  proof (cases v)
    case None
    then have "dom (m(p := v)) = ?D" by auto
    with rest None w0 show ?thesis by simp
  next
    case (Some e)
    then have d: "dom (m(p := v)) = insert p ?D" by auto
    from finD have "(\<Sum>q \<in> insert p ?D. w ((m(p := v)) q))
        = w ((m(p := v)) p) + (\<Sum>q \<in> ?D. w ((m(p := v)) q))"
      by (rule sum.insert) simp
    with d rest show ?thesis by simp
  qed
  from old new show ?thesis by simp
qed

lemma card_old_as_sum:
  assumes "finite (dom (entries s))"
  shows "int (card (entries_in {state_old} s))
           = (\<Sum>q \<in> dom (entries s). old_weight (entries s q))"
proof -
  let ?P = "\<lambda>q. \<exists>en. entries s q = Some en \<and> state en \<in> {state_old}"
  have "int (card (entries_in {state_old} s)) = (\<Sum>q \<in> {q \<in> dom (entries s). ?P q}. 1)"
    by (simp add: entries_in_def)
  also have "\<dots> = (\<Sum>q \<in> dom (entries s). if ?P q then 1 else 0)"
    using assms by (rule sum.inter_filter)
  also have "\<dots> = (\<Sum>q \<in> dom (entries s). old_weight (entries s q))"
    by (rule sum.cong) (auto simp: old_weight_def)
  finally show ?thesis .
qed

lemma garbage_old_as_sum:
  assumes "finite (dom (entries s))"
  shows "int (\<Sum>q \<in> entries_in {state_old} s. entry_count (entries s) q)
           = (\<Sum>q \<in> dom (entries s). old_garbage_weight (entries s q))"
proof -
  let ?P = "\<lambda>q. \<exists>en. entries s q = Some en \<and> state en \<in> {state_old}"
  have "int (\<Sum>q \<in> entries_in {state_old} s. entry_count (entries s) q)
      = (\<Sum>q \<in> {q \<in> dom (entries s). ?P q}. int (entry_count (entries s) q))"
    by (simp add: entries_in_def)
  also have "\<dots> = (\<Sum>q \<in> dom (entries s).
      if ?P q then int (entry_count (entries s) q) else 0)"
    using assms by (rule sum.inter_filter)
  also have "\<dots> = (\<Sum>q \<in> dom (entries s). old_garbage_weight (entries s q))"
    by (rule sum.cong) (auto simp: old_garbage_weight_def entry_count_def)
  finally show ?thesis .
qed

lemma gc_stats_update:
  assumes "gc_stats_of_old cfg s" and e: "entries s' = (entries s)(p := v)"
    and t': "old_total_blocks s' = old_total_blocks s
           + int (blocks_per_extent cfg) * (old_weight v - old_weight (entries s p))"
    and g': "old_garbage_blocks s' = old_garbage_blocks s
           + (old_garbage_weight v - old_garbage_weight (entries s p))"
  shows "gc_stats_of_old cfg s'"
proof -
  from assms(1) have fin: "finite (dom (entries s))"
    and t: "old_total_blocks s = int (blocks_per_extent cfg * card (entries_in {state_old} s))"
    and g: "old_garbage_blocks s
       = int (\<Sum>p \<in> entries_in {state_old} s. entry_count (entries s) p)"
    by (simp_all add: gc_stats_of_old_def)
  from fin e have fin': "finite (dom (entries s'))"
    by (cases v) simp_all
  have w0: "old_weight None = 0" "old_garbage_weight None = 0"
    by (simp_all add: old_weight_def old_garbage_weight_def)
  have u1: "(\<Sum>q \<in> dom (entries s'). old_weight (entries s' q)) + old_weight (entries s p)
      = (\<Sum>q \<in> dom (entries s). old_weight (entries s q)) + old_weight v"
    unfolding e
    by (rule weight_sum_update [where m = "entries s" and w = old_weight, OF fin w0(1)])
  have u2: "(\<Sum>q \<in> dom (entries s'). old_garbage_weight (entries s' q))
        + old_garbage_weight (entries s p)
      = (\<Sum>q \<in> dom (entries s). old_garbage_weight (entries s q)) + old_garbage_weight v"
    unfolding e
    by (rule weight_sum_update [where m = "entries s" and w = old_garbage_weight,
          OF fin w0(2)])
  from u1 card_old_as_sum [OF fin] card_old_as_sum [OF fin']
  have c: "int (card (entries_in {state_old} s'))
        = int (card (entries_in {state_old} s)) + (old_weight v - old_weight (entries s p))"
    by linarith
  from u2 garbage_old_as_sum [OF fin] garbage_old_as_sum [OF fin']
  have d: "int (\<Sum>q \<in> entries_in {state_old} s'. entry_count (entries s') q)
        = int (\<Sum>q \<in> entries_in {state_old} s. entry_count (entries s) q)
          + (old_garbage_weight v - old_garbage_weight (entries s p))"
    by linarith
  have "int (blocks_per_extent cfg * card (entries_in {state_old} s'))
      = int (blocks_per_extent cfg) * int (card (entries_in {state_old} s'))"
    by simp
  also have "\<dots> = int (blocks_per_extent cfg)
      * (int (card (entries_in {state_old} s)) + (old_weight v - old_weight (entries s p)))"
    by (simp only: c)
  also have "\<dots> = int (blocks_per_extent cfg * card (entries_in {state_old} s))
      + int (blocks_per_extent cfg) * (old_weight v - old_weight (entries s p))"
    by (simp only: distrib_left of_nat_mult)
  finally have "old_total_blocks s'
      = int (blocks_per_extent cfg * card (entries_in {state_old} s'))"
    using t t' by simp
  moreover from d g g' have "old_garbage_blocks s'
       = int (\<Sum>p \<in> entries_in {state_old} s'. entry_count (entries s') p)"
    by simp
  ultimately show ?thesis
    using fin' by (simp add: gc_stats_of_old_def)
qed

lemma gc_stats_same:
  assumes "gc_stats_of_old cfg s" and "entries s' = entries s"
    and "old_total_blocks s' = old_total_blocks s"
    and "old_garbage_blocks s' = old_garbage_blocks s"
  shows "gc_stats_of_old cfg s'"
  using assms by (simp add: gc_stats_of_old_def entries_in_def)

lemma bitset_count_set:
  "k < length g \<Longrightarrow> \<not> g ! k \<Longrightarrow> bitset_count (g[k := True]) = Suc (bitset_count g)"
proof (induction g arbitrary: k)
  case Nil
  then show ?case by simp
next
  case (Cons b g)
  then show ?case
    by (cases k) (simp_all add: bitset_count_def)
qed

lemma remove_last_unyoung_entry_stats:
  assumes "gc_stats_of_old cfg s" "remove_last_unyoung_entry cfg s = Inr s'"
  shows "gc_stats_of_old cfg s'"
proof -
  from remove_last_unyoung_entry_effect [OF assms(2)] obtain p rest en where
    e: "entries s p = Some en" and y: "state en = state_young"
    and s': "s' = s\<lparr>young_extent_queue := rest,
            entries := (entries s)(p \<mapsto> en\<lparr>state := state_old\<rparr>),
            gc_pq := pq_insert (entry_count ((entries s)(p \<mapsto> en\<lparr>state := state_old\<rparr>))) p
                       (gc_pq s),
            old_total_blocks := old_total_blocks s + int (blocks_per_extent cfg),
            old_garbage_blocks := old_garbage_blocks s + int (bitset_count (g_array en))\<rparr>"
    by blast
  show ?thesis
  proof (rule gc_stats_update [OF assms(1), where p = p and v = "Some (en\<lparr>state := state_old\<rparr>)"])
    show "entries s' = (entries s)(p \<mapsto> en\<lparr>state := state_old\<rparr>)"
      by (simp add: s')
    show "old_total_blocks s' = old_total_blocks s + int (blocks_per_extent cfg)
        * (old_weight (Some (en\<lparr>state := state_old\<rparr>)) - old_weight (entries s p))"
      by (simp add: s' e y old_weight_def)
    show "old_garbage_blocks s' = old_garbage_blocks s
        + (old_garbage_weight (Some (en\<lparr>state := state_old\<rparr>))
           - old_garbage_weight (entries s p))"
      by (simp add: s' e y old_garbage_weight_def)
  qed
qed

lemma unyoung_while_too_many_stats:
  "gc_stats_of_old cfg s \<Longrightarrow> unyoung_while_too_many cfg s = Inr s' \<Longrightarrow>
     gc_stats_of_old cfg s'"
proof (induction cfg s rule: unyoung_while_too_many.induct)
  case (1 cfg s)
  show ?case
  proof (cases "length (young_extent_queue s) > GC_YOUNG_EXTENT_MAX_SIZE cfg")
    case True
    with "1.prems" obtain s1 where r: "remove_last_unyoung_entry cfg s = Inr s1"
      and u: "unyoung_while_too_many cfg s1 = Inr s'"
      by (subst (asm) unyoung_while_too_many.simps) (auto split: sum.splits)
    from "1.IH" [OF True r remove_last_unyoung_entry_stats [OF "1.prems"(1) r] u]
    show ?thesis .
  next
    case False
    with "1.prems" show ?thesis
      by (simp add: unyoung_while_too_many_done)
  qed
qed

lemma unyoung_while_too_old_stats:
  "gc_stats_of_old cfg s \<Longrightarrow> unyoung_while_too_old cfg now s = Inr s' \<Longrightarrow>
     gc_stats_of_old cfg s'"
proof (induction cfg now s rule: unyoung_while_too_old.induct)
  case (1 cfg now s)
  show ?case
  proof (cases "young_extent_queue s")
    case Nil
    with "1.prems" show ?thesis
      by (simp add: unyoung_while_too_old_Nil)
  next
    case (Cons p rest)
    show ?thesis
    proof (cases "entries s p")
      case None
      with Cons "1.prems" show ?thesis
        by (subst (asm) unyoung_while_too_old.simps) simp
    next
      case (Some en)
      show ?thesis
      proof (cases "now - timestamp en > GC_YOUNG_EXTENT_TIMELIMIT_MICROS cfg")
        case True
        with Cons Some "1.prems" obtain s1 where r: "remove_last_unyoung_entry cfg s = Inr s1"
          and u: "unyoung_while_too_old cfg now s1 = Inr s'"
          by (subst (asm) unyoung_while_too_old.simps) (auto split: sum.splits)
        from "1.IH" [OF Cons Some True r remove_last_unyoung_entry_stats [OF "1.prems"(1) r] u]
        show ?thesis .
      next
        case False
        with Cons Some "1.prems" show ?thesis
          by (simp add: unyoung_while_too_old_Cons)
      qed
    qed
  qed
qed

lemma mark_unyoung_entries_stats:
  assumes "gc_stats_of_old cfg s" "mark_unyoung_entries cfg ev s = Inr s'"
  shows "gc_stats_of_old cfg s'"
proof -
  from assms(2) obtain s1 where m: "unyoung_while_too_many cfg s = Inr s1"
    and o: "unyoung_while_too_old cfg (current_microtime ev s1) s1 = Inr s'"
    by (auto simp: mark_unyoung_entries_def split: sum.splits)
  from unyoung_while_too_old_stats [OF unyoung_while_too_many_stats [OF assms(1) m] o]
  show ?thesis .
qed

lemma mark_garbage_bit:
  assumes "mark_garbage cfg off s = Inr s'"
  shows "\<exists>en. entries s (extent_index cfg off) = Some en \<and>
     block_index cfg off < length (g_array en) \<and> \<not> g_array en ! block_index cfg off"
  using assms
  by (auto simp: mark_garbage_def Let_def bitset_get_def split: option.splits if_splits)

lemma mark_garbage_stats:
  assumes inv: "gc_stats_of_old cfg s" and r: "mark_garbage cfg off s = Inr s'"
  shows "gc_stats_of_old cfg s'"
proof -
  let ?p = "extent_index cfg off" and ?k = "block_index cfg off"
  from mark_garbage_bit [OF r] obtain en where e: "entries s ?p = Some en"
    and k: "?k < length (g_array en)" and b: "\<not> g_array en ! ?k"
    by blast
  let ?g = "(g_array en)[?k := True]"
  have cnt: "bitset_count ?g = Suc (bitset_count (g_array en))"
    using k b by (rule bitset_count_set)
  show ?thesis
  proof (cases "bitset_count ?g = blocks_per_extent cfg \<and> state en \<noteq> state_active")
    case False
    note kept = mark_garbage_kept [OF e k b r False]
    show ?thesis
    proof (rule gc_stats_update [OF inv, where p = ?p and v = "Some (en\<lparr>g_array := ?g\<rparr>)"])
      show "entries s' = (entries s)(?p \<mapsto> en\<lparr>g_array := ?g\<rparr>)"
        using kept by (simp split: if_splits)
      show "old_total_blocks s' = old_total_blocks s + int (blocks_per_extent cfg)
          * (old_weight (Some (en\<lparr>g_array := ?g\<rparr>)) - old_weight (entries s ?p))"
        using kept by (simp add: e old_weight_def split: if_splits)
      show "old_garbage_blocks s' = old_garbage_blocks s
          + (old_garbage_weight (Some (en\<lparr>g_array := ?g\<rparr>))
             - old_garbage_weight (entries s ?p))"
        using kept cnt by (simp add: e old_garbage_weight_def split: if_splits)
    qed
  next
    case True
    then have full: "bitset_count ?g = blocks_per_extent cfg" and na: "state en \<noteq> state_active"
      by simp_all
    have "entries s' = (entries s)(?p := None) \<and>
        old_total_blocks s' = old_total_blocks s
          - (if state en = state_old then int (blocks_per_extent cfg) else 0) \<and>
        old_garbage_blocks s' = old_garbage_blocks s
          + (if state en = state_old then 1 - int (blocks_per_extent cfg) else 0)"
    proof -
      from mark_garbage_not_reconstructing [OF e k b r full] na
      consider "state en = state_young" | "state en = state_old" | "state en = state_in_gc"
        by (cases "state en") simp_all
      then show ?thesis
      proof cases
        case 1
        with mark_garbage_young [OF e k b r full 1] show ?thesis by simp
      next
        case 2
        with mark_garbage_old_full [OF e k b r full 2] show ?thesis by simp
      next
        case 3
        with mark_garbage_in_gc [OF e k b r full 3] show ?thesis by simp
      qed
    qed
    then have gone: "entries s' = (entries s)(?p := None)"
      and tot: "old_total_blocks s' = old_total_blocks s
          - (if state en = state_old then int (blocks_per_extent cfg) else 0)"
      and gar: "old_garbage_blocks s' = old_garbage_blocks s
          + (if state en = state_old then 1 - int (blocks_per_extent cfg) else 0)"
      by simp_all
    show ?thesis
    proof (rule gc_stats_update [OF inv, where p = ?p and v = None])
      show "entries s' = (entries s)(?p := None)" by (rule gone)
      show "old_total_blocks s' = old_total_blocks s + int (blocks_per_extent cfg)
          * (old_weight None - old_weight (entries s ?p))"
        using tot by (simp add: e old_weight_def)
      show "old_garbage_blocks s' = old_garbage_blocks s
          + (old_garbage_weight None - old_garbage_weight (entries s ?p))"
        using gar cnt full by (simp add: e old_garbage_weight_def)
    qed
  qed
qed

lemma gc_stats_zero_weight:
  assumes "gc_stats_of_old cfg s" and "entries s' = (entries s)(p := v)"
    and "old_weight v = old_weight (entries s p)"
    and "old_garbage_weight v = old_garbage_weight (entries s p)"
    and "old_total_blocks s' = old_total_blocks s"
    and "old_garbage_blocks s' = old_garbage_blocks s"
  shows "gc_stats_of_old cfg s'"
  using assms(1,2) by (rule gc_stats_update) (simp_all add: assms)

lemma not_old_weights:
  "state en \<noteq> state_old \<Longrightarrow> old_weight (Some en) = 0"
  "state en \<noteq> state_old \<Longrightarrow> old_garbage_weight (Some en) = 0"
  "old_weight None = 0" "old_garbage_weight None = 0"
  by (simp_all add: old_weight_def old_garbage_weight_def)

lemma start_new_extent_stats:
  assumes "gc_stats_of_old cfg s" "start_new_extent_if_necessary cfg ev s = Inr s1"
  shows "gc_stats_of_old cfg s1"
proof (cases "active_extents s (next_active_extent s)")
  case (Some p)
  with start_new_extent_effect [OF assms(2)] assms(1) show ?thesis by simp
next
  case None
  let ?p = "gen_extent ev s div extent_size cfg"
  let ?en = "\<lparr>offset = gen_extent ev s, g_array = replicate (blocks_per_extent cfg) True,
                   timestamp = current_microtime ev s, state = state_active\<rparr>"
  from None start_new_extent_effect [OF assms(2)]
  have n: "entries s ?p = None"
    and s1: "s1 = s\<lparr>entries := (entries s)(?p \<mapsto> ?en),
               active_extents := (active_extents s)(next_active_extent s := Some ?p),
               blocks_in_active_extent := (blocks_in_active_extent s)
                 (next_active_extent s := 0)\<rparr>"
    by simp_all
  show ?thesis
    by (rule gc_stats_zero_weight [OF assms(1), where p = ?p and v = "Some ?en"])
      (simp_all add: s1 n not_old_weights)
qed

lemma put_block_stats:
  assumes "gc_stats_of_old cfg s" "put_block_into_extent cfg s = Inr (off, s2)"
  shows "gc_stats_of_old cfg s2"
proof -
  let ?n = "next_active_extent s"
  let ?k = "blocks_in_active_extent s ?n"
  from put_block_effect [OF assms(2)] obtain p en where
    en: "entries s p = Some en" and a: "state en = state_active"
    and s2: "s2 = s\<lparr>entries := (entries s)(p \<mapsto> en\<lparr>g_array := (g_array en)[?k := False]\<rparr>),
            blocks_in_active_extent := (blocks_in_active_extent s)(?n := ?k + 1)\<rparr>"
    by blast
  show ?thesis
    by (rule gc_stats_zero_weight [OF assms(1), where p = p
          and v = "Some (en\<lparr>g_array := (g_array en)[?k := False]\<rparr>)"])
      (simp_all add: s2 en a not_old_weights)
qed

lemma put_block_active:
  assumes "put_block_into_extent cfg s = Inr (off, s2)"
  shows "\<exists>p en. active_extents s2 (next_active_extent s2) = Some p \<and>
     entries s2 p = Some en \<and> state en = state_active"
  using put_block_effect [OF assms] by auto

lemma deactivate_extent_stats:
  assumes "gc_stats_of_old cfg s" "deactivate_extent_if_necessary cfg ev s = Inr s3"
    and "active_extents s (next_active_extent s) = Some q" "entries s q = Some eq"
    "state eq = state_active"
  shows "gc_stats_of_old cfg s3"
proof (cases "blocks_in_active_extent s (next_active_extent s) = blocks_per_extent cfg")
  case False
  with deactivate_extent_effect [OF assms(2)] assms(1) show ?thesis by simp
next
  case True
  with deactivate_extent_effect [OF assms(2)] obtain p en t where
    "active_extents s (next_active_extent s) = Some p" "entries s p = Some en"
    and m: "mark_unyoung_entries cfg ev
              (s\<lparr>entries := (entries s)(p \<mapsto> en\<lparr>state := state_young\<rparr>),
                 young_extent_queue := young_extent_queue s @ [p]\<rparr>) = Inr t"
    and s3: "s3 = t\<lparr>active_extents := (active_extents t)(next_active_extent s := None)\<rparr>"
    by auto
  with assms(3-5) have pq: "p = q" "en = eq" by simp_all
  have "gc_stats_of_old cfg (s\<lparr>entries := (entries s)(p \<mapsto> en\<lparr>state := state_young\<rparr>),
                 young_extent_queue := young_extent_queue s @ [p]\<rparr>)"
    by (rule gc_stats_zero_weight [OF assms(1), where p = p
          and v = "Some (en\<lparr>state := state_young\<rparr>)"])
      (simp_all add: pq assms(4,5) not_old_weights)
  from mark_unyoung_entries_stats [OF this m] have "gc_stats_of_old cfg t" .
  then show ?thesis
    by (rule gc_stats_same) (simp_all add: s3)
qed

lemma gimme_stats:
  assumes "gc_stats_of_old cfg s" "gimme_a_new_offset cfg ev s = Inr (off, s')"
  shows "gc_stats_of_old cfg s'"
proof -
  from assms(2) obtain s1 s2 s3 n' where
    a: "start_new_extent_if_necessary cfg ev s = Inr s1"
    and b: "put_block_into_extent cfg s1 = Inr (off, s2)"
    and c: "deactivate_extent_if_necessary cfg ev s2 = Inr s3"
    and d: "s' = s3\<lparr>next_active_extent := n'\<rparr>"
    by (rule gimme_stages)
  from put_block_active [OF b] obtain p en where
    "active_extents s2 (next_active_extent s2) = Some p" "entries s2 p = Some en"
    "state en = state_active"
    by blast
  from deactivate_extent_stats [OF put_block_stats [OF start_new_extent_stats [OF assms(1) a] b]
      c this]
  have "gc_stats_of_old cfg s3" .
  then show ?thesis
    by (rule gc_stats_same) (simp_all add: d)
qed

lemma set_step_stats: "gc_stats_of_old cfg s \<Longrightarrow> gc_stats_of_old cfg (set_step st s)"
  by (rule gc_stats_same) (simp_all add: set_step_fields)

lemma log_io_stats: "gc_stats_of_old cfg s \<Longrightarrow> gc_stats_of_old cfg (log_io e s)"
  by (rule gc_stats_same) (simp_all add: log_io_def)

lemma read_live_blocks_frame:
  "read_live_blocks cfg ev en slots s = Inr s' \<Longrightarrow>
     entries s' = entries s \<and> old_total_blocks s' = old_total_blocks s \<and>
     old_garbage_blocks s' = old_garbage_blocks s"
proof (induction slots arbitrary: s)
  case Nil
  then show ?case by simp
next
  case (Cons i slots)
  from Cons.prems have lt: "i < length (g_array en)"
    by (auto simp: bitset_get_def split: if_splits)
  show ?case
  proof (cases "g_array en ! i")
    case True
    with Cons.prems lt have "read_live_blocks cfg ev en slots s = Inr s'"
      by (simp add: bitset_get_def)
    from Cons.IH [OF this] show ?thesis .
  next
    case False
    let ?s1 = "log_io (Read_async (offset en + i * block_size cfg) (block_size cfg)
                                (Gc_blocks_at (i * block_size cfg))
                                (choose_gc_io_account cfg ev s) Gc_read_callback) s"
    from False Cons.prems lt
    have "read_live_blocks cfg ev en slots (?s1\<lparr>refcount := refcount ?s1 + 1\<rparr>) = Inr s'"
      by (simp add: bitset_get_def Let_def)
    from Cons.IH [OF this] show ?thesis
      by (simp add: log_io_def)
  qed
qed

lemma gc_ready_case_stats:
  assumes "gc_stats_of_old cfg s" "gc_ready_case cfg ev s = Inr s'"
  shows "gc_stats_of_old cfg s'"
proof (cases "gc_pq s = [] \<or> \<not> should_we_keep_gcing cfg ev s")
  case True
  with assms show ?thesis by (auto simp: gc_ready_case_def)
next
  case False
  with assms(2) have "s' = log_io Main_mutex_lock (set_step gc_ready_lock_available s)"
    by (auto simp: gc_ready_case_def)
  with assms(1) show ?thesis by (simp add: log_io_stats set_step_stats)
qed

lemma gc_read_case_stats:
  assumes "gc_stats_of_old cfg s" "gc_read_case s = Inr s'"
  shows "gc_stats_of_old cfg s'"
proof -
  have "gc_stats_of_old cfg (s\<lparr>refcount := refcount s - 1\<rparr>)"
    using assms(1) by (rule gc_stats_same) simp_all
  with assms(2) show ?thesis
    by (auto simp: gc_read_case_def Let_def intro: log_io_stats set_step_stats
        split: if_splits)
qed

lemma gc_ready_lock_available_case_stats:
  assumes inv: "gc_stats_of_old cfg s" and r: "gc_ready_lock_available_case cfg ev s = Inr s'"
  shows "gc_stats_of_old cfg s'"
proof -
  let ?s = "log_io Main_mutex_unlock s"
  have inv0: "gc_stats_of_old cfg ?s" using inv by (rule log_io_stats)
  show ?thesis
  proof (cases "gc_pq ?s = [] \<or> \<not> should_we_keep_gcing cfg ev ?s")
    case True
    with r have "s' = set_step gc_ready ?s"
      by (auto simp: gc_ready_lock_available_case_def Let_def)
    with inv0 show ?thesis by (simp add: set_step_stats)
  next
    case False
    with r obtain p rest en s2 where pq: "gc_pq ?s = p # rest" and e: "entries ?s p = Some en"
      and o: "state en = state_old"
      and rd: "read_live_blocks cfg ev en [0 ..< blocks_per_extent cfg]
         (?s\<lparr>gc_pq := rest, current_entry := Some p,
              entries := (entries ?s)(p \<mapsto> en\<lparr>state := state_in_gc\<rparr>),
              old_garbage_blocks := old_garbage_blocks ?s - int (bitset_count (g_array en)),
              old_total_blocks := old_total_blocks ?s - int (blocks_per_extent cfg)\<rparr>) = Inr s2"
      and s': "s' = set_step gc_read s2"
      by (auto simp: gc_ready_lock_available_case_def Let_def
          split: list.splits option.splits if_splits sum.splits)
    let ?s1 = "?s\<lparr>gc_pq := rest, current_entry := Some p,
              entries := (entries ?s)(p \<mapsto> en\<lparr>state := state_in_gc\<rparr>),
              old_garbage_blocks := old_garbage_blocks ?s - int (bitset_count (g_array en)),
              old_total_blocks := old_total_blocks ?s - int (blocks_per_extent cfg)\<rparr>"
    have "gc_stats_of_old cfg ?s1"
      by (rule gc_stats_update [OF inv0, where p = p
            and v = "Some (en\<lparr>state := state_in_gc\<rparr>)"])
        (simp_all add: e o old_weight_def old_garbage_weight_def)
    then have "gc_stats_of_old cfg s2"
      by (rule gc_stats_same) (simp_all add: read_live_blocks_frame [OF rd])
    with s' show ?thesis by (simp add: set_step_stats)
  qed
qed

lemma gc_read_lock_available_case_stats:
  assumes inv: "gc_stats_of_old cfg s" and w: "write_gcs_keeps (gc_stats_of_old cfg) ev"
    and r: "gc_read_lock_available_case cfg ev s = Inr (done, s')"
  shows "gc_stats_of_old cfg s'"
proof (cases "current_entry s")
  case None
  with r have "s' = set_step gc_ready (log_io Main_mutex_unlock s)"
    by (simp add: gc_read_lock_available_case_def)
  with inv show ?thesis by (simp add: set_step_stats log_io_stats)
next
  case (Some p)
  with r obtain ws acct where
    "write_gcs ev ws acct (log_io (Write_gcs ws acct) (set_step gc_write s)) = (done, s')"
    by (auto simp: gc_read_lock_available_case_def Let_def
        split: option.splits sum.splits if_splits)
  then have "s' = snd (write_gcs ev ws acct (log_io (Write_gcs ws acct) (set_step gc_write s)))"
    by simp
  moreover have "gc_stats_of_old cfg (log_io (Write_gcs ws acct) (set_step gc_write s))"
    using inv by (simp add: set_step_stats log_io_stats)
  ultimately show ?thesis
    using w by (simp add: write_gcs_keeps_def)
qed

lemma gc_write_case_result:
  assumes "gc_write_case cfg ev s = Inr (again, s2)"
  shows "\<exists>s1. mark_unyoung_entries cfg ev s = Inr s1 \<and>
     (if dbm_state s = state_shutting_down
      then \<not> again \<and> actually_shutdown cfg (set_step gc_ready s1) = Inr s2
      else again \<and> s2 = set_step gc_ready s1)"
proof -
  from assms obtain s1 where m: "mark_unyoung_entries cfg ev s = Inr s1"
    by (auto simp: gc_write_case_def split: sum.splits)
  from mark_unyoung_entries_frame [OF m] have "dbm_state s1 = dbm_state s"
    by (simp add: promotion_frame_def)
  with assms m show ?thesis
    by (auto simp: gc_write_case_def Let_def set_step_fields split: if_splits sum.splits)
qed

lemma gc_write_then_ready_stats:
  assumes inv: "gc_stats_of_old cfg s" and r: "gc_write_case cfg ev s = Inr (again, s2)"
    and f: "(if again then run_gc cfg ev s2 else Inr s2) = Inr s'"
    and ns: "dbm_state s' \<noteq> state_shut_down"
  shows "gc_stats_of_old cfg s'"
proof -
  from gc_write_case_result [OF r] obtain s1 where
    m: "mark_unyoung_entries cfg ev s = Inr s1"
    and c: "if dbm_state s = state_shutting_down
      then \<not> again \<and> actually_shutdown cfg (set_step gc_ready s1) = Inr s2
      else again \<and> s2 = set_step gc_ready s1"
    by blast
  show ?thesis
  proof (cases "dbm_state s = state_shutting_down")
    case True
    with c f have "actually_shutdown cfg (set_step gc_ready s1) = Inr s'" by simp
    from actually_shutdown_result [OF this] ns show ?thesis by simp
  next
    case False
    with c have again and s2: "s2 = set_step gc_ready s1" by simp_all
    from mark_unyoung_entries_stats [OF inv m] s2 have i2: "gc_stats_of_old cfg s2"
      by (simp add: set_step_stats)
    from s2 have "gc_step s2 = gc_ready" by (simp add: set_step_fields)
    with f \<open>again\<close> have "gc_ready_case cfg ev s2 = Inr s'"
      by (simp add: run_gc_steps)
    with i2 show ?thesis by (rule gc_ready_case_stats)
  qed
qed

lemma run_gc_stats:
  assumes inv: "gc_stats_of_old cfg s" and w: "write_gcs_keeps (gc_stats_of_old cfg) ev"
    and r: "run_gc cfg ev s = Inr s'" and ns: "dbm_state s' \<noteq> state_shut_down"
  shows "gc_stats_of_old cfg s'"
proof (cases "gc_step s")
  case gc_reconstruct
  with r show ?thesis by (simp add: run_gc_steps)
next
  case gc_ready
  with r inv show ?thesis by (simp add: run_gc_steps gc_ready_case_stats)
next
  case gc_ready_lock_available
  with r inv show ?thesis by (simp add: run_gc_steps gc_ready_lock_available_case_stats)
next
  case gc_read
  with r inv show ?thesis by (simp add: run_gc_steps gc_read_case_stats)
next
  case gc_read_lock_available
  with r obtain fall s1 where c: "gc_read_lock_available_case cfg ev s = Inr (fall, s1)"
    and rest: "(if \<not> fall then Inr s1
            else (case gc_write_case cfg ev s1 of
                    Inl e \<Rightarrow> Inl e
                  | Inr (run_again, s2) \<Rightarrow> if run_again then run_gc cfg ev s2 else Inr s2))
          = Inr s'"
    by (auto simp: run_gc_read_lock_available split: sum.splits)
  note i1 = gc_read_lock_available_case_stats [OF inv w c]
  show ?thesis
  proof (cases fall)
    case False
    with rest i1 show ?thesis by simp
  next
    case True
    with rest obtain again s2 where g: "gc_write_case cfg ev s1 = Inr (again, s2)"
      and f: "(if again then run_gc cfg ev s2 else Inr s2) = Inr s'"
      by (auto split: sum.splits)
    from i1 g f ns show ?thesis by (rule gc_write_then_ready_stats)
  qed
next
  case gc_write
  with r obtain again s2 where g: "gc_write_case cfg ev s = Inr (again, s2)"
    and f: "(if again then run_gc cfg ev s2 else Inr s2) = Inr s'"
    by (auto simp: run_gc_write split: sum.splits)
  from inv g f ns show ?thesis by (rule gc_write_then_ready_stats)
qed

lemma new_gc_entry_at_effect:
  assumes "new_gc_entry_at cfg ev off st s = Inr (q, s1)"
  shows "entries s (off div extent_size cfg) = None"
    and "entries s1 = (entries s)(off div extent_size cfg \<mapsto> \<lparr>offset = off,
        g_array = replicate (blocks_per_extent cfg) True,
        timestamp = current_microtime ev (log_io (Reserve_extent off) s), state = st\<rparr>)"
    and "old_total_blocks s1 = old_total_blocks s"
    and "old_garbage_blocks s1 = old_garbage_blocks s"
  using assms
  by (auto simp: new_gc_entry_at_def Let_def log_io_def split: if_splits)

lemma new_gc_entry_at_stats:
  assumes "gc_stats_of_old cfg s" "new_gc_entry_at cfg ev off state_reconstructing s = Inr (q, s1)"
  shows "gc_stats_of_old cfg s1"
  by (rule gc_stats_zero_weight [OF assms(1), where p = "off div extent_size cfg"
        and v = "Some \<lparr>offset = off, g_array = replicate (blocks_per_extent cfg) True,
          timestamp = current_microtime ev (log_io (Reserve_extent off) s),
          state = state_reconstructing\<rparr>"])
    (simp_all add: new_gc_entry_at_effect [OF assms(2)] not_old_weights)

lemma start_existing_slot_stats:
  assumes inv: "gc_stats_of_old cfg s" and r: "start_existing_slot cfg ev mb i s = Inr s'"
  shows "gc_stats_of_old cfg s'"
proof (cases "mb_active_extents mb i")
  case None
  with r have "s' = s\<lparr>active_extents := (active_extents s)(i := None)\<rparr>"
    by (simp add: start_existing_slot_def)
  with inv show ?thesis
    by (intro gc_stats_same [OF inv]) simp_all
next
  case (Some off)
  let ?p = "off div extent_size cfg"
  from Some r obtain sA en where
    A: "(if entries s ?p = None
         then (case new_gc_entry_at cfg ev off state_reconstructing s of
                 Inl e \<Rightarrow> Inl e
               | Inr (q, s1) \<Rightarrow>
                   Inr (s1\<lparr>reconstructed_extents := reconstructed_extents s1 @ [q]\<rparr>))
         else Inr s) = Inr sA"
    and en: "entries sA ?p = Some en" and st: "state en = state_reconstructing"
    and s': "s' = sA\<lparr>active_extents := (active_extents sA)(i := Some ?p),
                     entries := (entries sA)(?p \<mapsto> en\<lparr>state := state_active\<rparr>),
                     reconstructed_extents := remove1 ?p (reconstructed_extents sA),
                     blocks_in_active_extent :=
                       (blocks_in_active_extent sA)(i := mb_blocks_in_active_extent mb i)\<rparr>"
    by (auto simp: start_existing_slot_def Let_def split: sum.splits option.splits if_splits)
  have invA: "gc_stats_of_old cfg sA"
  proof (cases "entries s ?p = None")
    case False
    with A inv show ?thesis by simp
  next
    case True
    with A obtain q s1 where n: "new_gc_entry_at cfg ev off state_reconstructing s = Inr (q, s1)"
      and sA: "sA = s1\<lparr>reconstructed_extents := reconstructed_extents s1 @ [q]\<rparr>"
      by (auto split: sum.splits)
    from new_gc_entry_at_stats [OF inv n] show ?thesis
      by (rule gc_stats_same) (simp_all add: sA)
  qed
  show ?thesis
    by (rule gc_stats_zero_weight [OF invA, where p = ?p
          and v = "Some (en\<lparr>state := state_active\<rparr>)"])
      (simp_all add: s' en st not_old_weights)
qed

lemma start_existing_slots_stats:
  "gc_stats_of_old cfg s \<Longrightarrow> start_existing_slots cfg ev mb slots s = Inr s' \<Longrightarrow>
     gc_stats_of_old cfg s'"
proof (induction slots arbitrary: s)
  case Nil
  then show ?case by simp
next
  case (Cons i slots)
  from Cons.prems(2) obtain s1 where a: "start_existing_slot cfg ev mb i s = Inr s1"
    and b: "start_existing_slots cfg ev mb slots s1 = Inr s'"
    by (auto split: sum.splits)
  from Cons.IH [OF start_existing_slot_stats [OF Cons.prems(1) a] b] show ?case .
qed

lemma reconstructed_to_old_stats:
  "gc_stats_of_old cfg s \<Longrightarrow> reconstructed_to_old cfg s = Inr s' \<Longrightarrow>
     gc_stats_of_old cfg s'"
proof (induction cfg s rule: reconstructed_to_old.induct)
  case (1 cfg s)
  show ?case
  proof (cases "reconstructed_extents s")
    case Nil
    with "1.prems" show ?thesis by (simp add: reconstructed_to_old_Nil)
  next
    case (Cons p rest)
    with "1.prems"(2) obtain en where e: "entries s p = Some en"
      and st: "state en = state_reconstructing"
      by (subst (asm) reconstructed_to_old.simps) (auto split: option.splits if_splits)
    let ?s1 = "s\<lparr>reconstructed_extents := remove1 p (reconstructed_extents s),
                            entries := (entries s)(p \<mapsto> en\<lparr>state := state_old\<rparr>)\<rparr>"
    let ?s2 = "pq_push p ?s1"
    let ?s3 = "?s2\<lparr>old_total_blocks := old_total_blocks ?s2 + int (blocks_per_extent cfg),
                          old_garbage_blocks :=
                            old_garbage_blocks ?s2 + int (bitset_count (g_array en))\<rparr>"
    from Cons e st "1.prems"(2) have rec: "reconstructed_to_old cfg ?s3 = Inr s'"
      by (subst (asm) reconstructed_to_old.simps) (simp add: Let_def)
    have "gc_stats_of_old cfg ?s3"
      by (rule gc_stats_update [OF "1.prems"(1), where p = p
            and v = "Some (en\<lparr>state := state_old\<rparr>)"])
        (simp_all add: pq_push_def e st old_weight_def old_garbage_weight_def)
    from "1.IH" [OF Cons e _ refl refl this rec] st show ?thesis by simp
  qed
qed

lemma start_existing_stats:
  assumes "gc_stats_of_old cfg s" "start_existing cfg ev mb s = Inr s'"
  shows "gc_stats_of_old cfg s'"
proof -
  from assms(2) obtain s1 s2 where
    a: "start_existing_slots cfg ev mb [0 ..< MAX_ACTIVE_DATA_EXTENTS cfg] s = Inr s1"
    and b: "reconstructed_to_old cfg s1 = Inr s2" and c: "s' = s2\<lparr>dbm_state := state_ready\<rparr>"
    by (auto simp: start_existing_def split: if_splits sum.splits)
  from reconstructed_to_old_stats [OF start_existing_slots_stats [OF assms(1) a] b]
  show ?thesis
    by (rule gc_stats_same) (simp_all add: c)
qed

text \<open>
  Claim C1, amended. \<^verbatim>\<open>old_total_blocks\<close> is the blocks per extent times the
  number of entries whose state is old, and \<^verbatim>\<open>old_garbage_blocks\<close> is the sum of
  their garbage counts: an allocation, a young promotion, \<^verbatim>\<open>mark_garbage\<close>, a GC
  step and \<^verbatim>\<open>start_existing\<close> keep both, unless the GC step completes a shutdown
  (\<^verbatim>\<open>actually_shutdown\<close> deletes the entries and leaves the statistics).
\<close>

theorem gc_stats_kept:
  assumes "gc_stats_of_old cfg s" and "write_gcs_keeps (gc_stats_of_old cfg) ev"
    and "perform cfg ev opn s = Inr s'" and "dbm_state s' \<noteq> state_shut_down"
  shows "gc_stats_of_old cfg s'"
proof (cases opn)
  case Allocation
  with assms(3) obtain off where "gimme_a_new_offset cfg ev s = Inr (off, s')"
    by (auto split: sum.splits)
  with assms(1) show ?thesis by (rule gimme_stats)
next
  case Young_promotion
  with assms(1,3) show ?thesis by (simp add: mark_unyoung_entries_stats)
next
  case (Mark_garbage off)
  with assms(1,3) show ?thesis by (simp add: mark_garbage_stats)
next
  case Gc_step
  with assms show ?thesis by (simp add: run_gc_stats)
next
  case (Start_existing mb)
  with assms(1,3) show ?thesis by (simp add: start_existing_stats)
qed

lemma replicate_four: "replicate 4 x = [x, x, x, x]"
  by (simp add: numeral_eq_Suc)

lemma reconstructed_to_old_Cons:
  "reconstructed_extents s = p # rest \<Longrightarrow> entries s p = Some en \<Longrightarrow>
     reconstructed_to_old cfg s =
       (if state en \<noteq> state_reconstructing then Inl Assertion_failed
        else
          let s1 = s\<lparr>reconstructed_extents := remove1 p (reconstructed_extents s),
                     entries := (entries s)(p \<mapsto> en\<lparr>state := state_old\<rparr>)\<rparr>;
              s2 = pq_push p s1
          in reconstructed_to_old cfg
               (s2\<lparr>old_total_blocks := old_total_blocks s2 + int (blocks_per_extent cfg),
                   old_garbage_blocks :=
                     old_garbage_blocks s2 + int (bitset_count (g_array en))\<rparr>))"
  by (subst reconstructed_to_old.simps) simp

text \<open>The state \<open>example_victim\<close> is the one a start-up with two live blocks produces.\<close>

lemma example_victim_reached:
  "(case start_reconstruct (example_unstarted\<lparr>gc_blocks := gc_blocks example_victim\<rparr>) of
      Inl e \<Rightarrow> Inl e
    | Inr s1 \<Rightarrow>
        (case mark_live example_config4 (example_env 0) 8 s1 of
           Inl e \<Rightarrow> Inl e
         | Inr s2 \<Rightarrow>
             (case mark_live example_config4 (example_env 0) 12 s2 of
                Inl e \<Rightarrow> Inl e
              | Inr s3 \<Rightarrow>
                  (case end_reconstruct s3 of
                     Inl e \<Rightarrow> Inl e
                   | Inr s4 \<Rightarrow>
                       start_existing example_config4 (example_env 0)
                         prepare_initial_metablock s4))))
   = Inr example_victim"
  by (simp add: start_reconstruct_def mark_live_def end_reconstruct_def start_existing_def
      start_existing_slot_def new_gc_entry_at_def set_step_def log_io_def pq_push_def
      prepare_initial_metablock_def example4_defs example_defs bitset_defs Let_def upt_two
      replicate_four reconstructed_to_old_Cons reconstructed_to_old_Nil)

lemma example_gc_started:
  "start_gc example_config4 (example_env 0) example_victim
     = Inr (example_victim\<lparr>gc_step := gc_ready_lock_available,
              io_log := [Reserve_extent 0, Main_mutex_lock]\<rparr>)"
  "on_lock_available example_config4 (example_env 0)
       (example_victim\<lparr>gc_step := gc_ready_lock_available,
              io_log := [Reserve_extent 0, Main_mutex_lock]\<rparr>)
     = Inr example_in_gc"
  by (simp_all add: start_gc_def on_lock_available_def run_gc_steps gc_ready_case_def
      gc_ready_lock_available_case_def should_we_keep_gcing_def
      garbage_ratio_def choose_gc_io_account_def set_step_def log_io_def
      example4_defs example_in_gc_def example_defs bitset_defs Let_def upt_four)

lemma example_entries_in:
  "entries_in {state_old, state_in_gc} example_victim = {0}"
  "entries_in {state_old, state_in_gc} example_in_gc = {0}"
  "entries_in {state_old} example_in_gc = {}"
  "entries_in {state_old} example_victim = {0}"
  by (auto simp: entries_in_def example4_defs example_in_gc_def example_defs split: if_splits)

text \<open>
  Claim C1 as stated fails: an extent in GC is not counted. With extent 0 old and two
  of its four blocks garbage, the statistics are 4 and 2, as specified; the GC picks
  the extent, which makes it the one entry that is old or in GC, and the statistics are
  both 0.
\<close>

theorem gc_stats_exclude_victim:
  "gc_stats_as_specified example_config4 example_victim \<and>
   (\<exists>s1. start_gc example_config4 (example_env 0) example_victim = Inr s1 \<and>
         on_lock_available example_config4 (example_env 0) s1 = Inr example_in_gc) \<and>
   entries_in {state_old, state_in_gc} example_in_gc = {0} \<and>
   old_total_blocks example_in_gc = 0 \<and>
   \<not> gc_stats_as_specified example_config4 example_in_gc"
proof (intro conjI)
  show "gc_stats_as_specified example_config4 example_victim"
    by (simp add: gc_stats_as_specified_def example_entries_in)
      (simp add: example4_defs example_defs entry_count_def bitset_count_def)
  show "\<exists>s1. start_gc example_config4 (example_env 0) example_victim = Inr s1 \<and>
         on_lock_available example_config4 (example_env 0) s1 = Inr example_in_gc"
    using example_gc_started by simp
  show "entries_in {state_old, state_in_gc} example_in_gc = {0}"
    by (rule example_entries_in)
  show "old_total_blocks example_in_gc = 0"
    by (simp add: example_in_gc_def)
  show "\<not> gc_stats_as_specified example_config4 example_in_gc"
    by (simp add: gc_stats_as_specified_def example_entries_in)
      (simp add: example4_defs example_in_gc_def example_defs)
qed

theorem gc_stats_kept_witness:
  "perform example_config4 (example_env 0) Gc_step
       (example_victim\<lparr>gc_step := gc_ready_lock_available,
              io_log := [Reserve_extent 0, Main_mutex_lock]\<rparr>)
     = Inr example_in_gc \<and>
   gc_stats_of_old example_config4 example_in_gc \<and>
   entries_in {state_old} example_in_gc = {} \<and> old_total_blocks example_in_gc = 0"
proof -
  let ?s = "example_victim\<lparr>gc_step := gc_ready_lock_available,
              io_log := [Reserve_extent 0, Main_mutex_lock]\<rparr>"
  have "entries_in {state_old} ?s = {0}"
    using example_entries_in(4) by (simp add: entries_in_def)
  then have i: "gc_stats_of_old example_config4 ?s"
    by (simp add: gc_stats_of_old_def)
      (simp add: example4_defs example_defs entry_count_def bitset_count_def)
  have w: "write_gcs_keeps (gc_stats_of_old example_config4) (example_env 0)"
    by (simp add: write_gcs_keeps_def example_env_def)
  have p: "perform example_config4 (example_env 0) Gc_step ?s = Inr example_in_gc"
    using example_gc_started(2) by (simp add: on_lock_available_def split: if_splits)
  have n: "dbm_state example_in_gc \<noteq> state_shut_down"
    by (simp add: example_in_gc_def example4_defs example_defs)
  from gc_stats_kept [OF i w p n] p show ?thesis
    by (simp add: example_entries_in) (simp add: example_in_gc_def)
qed

subsection \<open>The offsets of the allocator\<close>



































end
